theory Spec2Isabelle
  imports Complex_Main
begin

section \<open>Values of the downloader\<close>

text \<open>
  Python floats as the filter compares them: a finite value, the two infinities, or NaN.
  Every comparison with NaN is false, which is why \<open>float_le\<close> is a function of its own
  and not the order of a numeric type.
\<close>

datatype pyfloat = Fin real | PInf | NInf | NaN

fun float_le :: "pyfloat \<Rightarrow> pyfloat \<Rightarrow> bool" where
  "float_le NaN y = False"
| "float_le x NaN = False"
| "float_le NInf y = True"
| "float_le x PInf = True"
| "float_le (Fin x) (Fin y) = (x \<le> y)"
| "float_le x y = False"

text \<open>
  A chapter descriptor as the content API returns it: \<open>ch.get("id")\<close> and the entries of
  \<open>ch.get("attributes", {})\<close> the code reads. A missing key and a JSON null are both
  \<open>None\<close>.
\<close>

record chapter_desc =
  chapter_id :: "string option"
  vol :: "string option"
  chnum :: "string option"
  externalUrl :: "string option"
  title :: "string option"
  translatedLanguage :: "string option"

text \<open>The request payload of a job (\<open>JobRequest\<close> in main.py).\<close>

record job_request =
  manga_id :: string
  language :: "string option"
  volumes :: "string list option"
  chapters :: "string list option"

text \<open>
  The title document of \<open>get_manga\<close>, as far as process\_job reads it itself:
  \<open>title_choice\<close> is the value of
  \<open>title_obj.get("en") or title_obj.get("ja-ro") or title_obj.get("ja") or next(iter(...), None)\<close>,
  \<open>cover_fileName\<close> the \<open>fileName\<close> attribute of the first \<open>cover_art\<close> relationship, and
  \<open>document\<close> the rest, which only the renderers of series.json and ComicInfo.xml read.
\<close>

record manga =
  title_choice :: "string option"
  cover_fileName :: "string option"
  document :: string

text \<open>
  Library functions the code calls and the model takes as given: Python's \<open>float\<close> on a
  string (\<open>None\<close> where it raises ValueError), \<open>str.isalnum\<close> on one character, the
  Pillow step of the packager (the payload re-encoded as JPEG when Pillow opens it and
  its format is another one, the payload itself otherwise), and the two renderers
  (\<open>json.dump\<close> of the series metadata, ElementTree for ComicInfo.xml; the latter is the
  empty string where rendering raises).
\<close>

record lib =
  float_of_str :: "string \<Rightarrow> pyfloat option"
  isalnum :: "char \<Rightarrow> bool"
  to_jpeg :: "string \<Rightarrow> string"
  series_json :: "manga \<Rightarrow> string \<Rightarrow> string"
  comic_info_xml :: "manga \<Rightarrow> chapter_desc \<Rightarrow> string \<Rightarrow> string \<Rightarrow> string"

text \<open>The result summary process\_job returns.\<close>

record summary =
  chapters_processed :: nat
  chapters_packaged :: nat
  files_created :: "string list"
  skipped_chapters :: nat
  skipped_external :: nat
  skipped_no_images :: nat
  errors :: nat

text \<open>
  Exceptions: \<open>httpx.HTTPStatusError\<close> with the status code of its response, and every
  other exception. Both carry \<open>str(e)\<close>.
\<close>

datatype exn = HTTPStatusError nat string | OtherError string

fun exn_text :: "exn \<Rightarrow> string" where
  "exn_text (HTTPStatusError c t) = t"
| "exn_text (OtherError t) = t"

text \<open>
  The JSON document of a response as the code reads it. \<open>NoJson\<close> is a body
  \<open>r.json()\<close> raises on, with the text of that exception; \<open>OtherDoc\<close> is a JSON
  object without the keys the caller asks for. In \<open>ChapterPage\<close> a missing \<open>data\<close> is the empty list and the total is optional;
  \<open>AtHomeDoc\<close> holds \<open>baseUrl\<close>, \<open>chapter.hash\<close>, \<open>chapter.data\<close> and
  \<open>chapter.dataSaver\<close>; \<open>MangaDoc\<close> holds \<open>data\<close> (None when missing or empty);
  \<open>TokenDoc\<close> holds \<open>access_token\<close> and \<open>refresh_token\<close>.
\<close>

datatype body =
    NoJson string
  | OtherDoc
  | ChapterPage "chapter_desc list" "int option"
  | AtHomeDoc "string option" "string option" "string list" "string list"
  | MangaDoc "manga option"
  | TokenDoc "string option" "string option"

text \<open>
  An HTTP response: status code, the Retry-After header, the payload bytes, the decoded
  document, and the text httpx puts into the HTTPStatusError of \<open>raise_for_status\<close>.
  A request is answered by a response or raises in the transport.
\<close>

record response =
  status_code :: nat
  retry_after :: "string option"
  content :: string
  json :: body
  error_text :: string

datatype reply = Resp response | Transport string

text \<open>
  What the process does to the outside, in order: taking a permit of a rate-limit window
  (\<open>async with self.api_rpm\<close>, \<open>async with self.api_rps\<close>), a GET (who sends it, URL,
  query, Authorization header), a POST to the token endpoint (the grant type), a sleep.
\<close>

datatype window = RPM | RPS

datatype sender = Api | ImageFetch | CoverFetch

datatype query =
    NoQuery
  | IncludesCoverArt
  | ChapterQuery string string nat nat

datatype event =
    Acquire window
  | Get sender string query "string option"
  | Post string
  | Sleep pyfloat

text \<open>A file: plain bytes, or a zip archive with its entries and whether it was closed.\<close>

datatype file_data = Plain string | Archive "(string \<times> string) list" bool

text \<open>
  The state the code runs in. \<open>net\<close> answers the n-th request sent, \<open>io_fails\<close> says
  whether the n-th file-system operation raises, and with which text, and \<open>torn\<close> what
  a move that raises as the n-th operation has written to its destination by then
  (\<open>None\<close>: nothing); all three are the environment's, and the model makes no assumption
  on them. The token fields and the Authorization header are
  the client's (\<open>_access_token\<close>, \<open>_refresh_token\<close>, \<open>headers["Authorization"]\<close>).
\<close>

record world =
  net :: "nat \<Rightarrow> reply"
  sent :: nat
  trace :: "event list"
  access_token :: "string option"
  refresh_token :: "string option"
  authorization :: "string option"
  files :: "string \<rightharpoonup> file_data"
  io_fails :: "nat \<Rightarrow> string option"
  torn :: "nat \<Rightarrow> file_data option"
  ios :: nat

text \<open>The configuration of the client and of the download manager.\<close>

record config =
  base_url :: string
  username :: "string option"
  password :: "string option"
  client_id :: "string option"
  client_secret :: "string option"
  library_root :: string
  work_dir :: string
  default_language :: string
  use_datasaver :: bool

section \<open>Rate-limited client (mangadex\_client.py)\<close>

text \<open>Truthiness of an optional string: None and the empty string are false.\<close>

definition truthy :: "string option \<Rightarrow> bool" where
  "truthy s = (case s of None \<Rightarrow> False | Some t \<Rightarrow> t \<noteq> [])"

definition emit :: "event \<Rightarrow> world \<Rightarrow> world" where
  "emit e w = w\<lparr>trace := trace w @ [e]\<rparr>"

definition send :: "world \<Rightarrow> reply \<times> world" where
  "send w = (net w (sent w), w\<lparr>sent := Suc (sent w)\<rparr>)"

definition sleep :: "pyfloat \<Rightarrow> world \<Rightarrow> world" where
  "sleep d w = emit (Sleep d) w"

text \<open>\<open>r.raise_for_status()\<close>: every status outside 2xx raises.\<close>

definition raise_for_status :: "response \<Rightarrow> exn + response" where
  "raise_for_status r =
     (if 200 \<le> status_code r \<and> status_code r < 300 then Inr r
      else Inl (HTTPStatusError (status_code r) (error_text r)))"

text \<open>
  \<open>float(r.headers.get("Retry-After", 2))\<close>, or the ValueError \<open>float\<close> raises, whose
  text quotes the header.
\<close>

definition retry_delay :: "lib \<Rightarrow> response \<Rightarrow> exn + pyfloat" where
  "retry_delay L r =
     (case retry_after r of
        None \<Rightarrow> Inr (Fin 2)
      | Some s \<Rightarrow>
          (case float_of_str L s of
             None \<Rightarrow>
               Inl (OtherError
                 (''could not convert string to float: '' @ [CHR 0x27] @ s @ [CHR 0x27]))
           | Some d \<Rightarrow> Inr d))"

text \<open>\<open>if self._access_token: self.headers["Authorization"] = ...\<close>\<close>

definition set_bearer :: "world \<Rightarrow> world" where
  "set_bearer w =
     (case access_token w of
        None \<Rightarrow> w
      | Some t \<Rightarrow> if t = [] then w else w\<lparr>authorization := Some (''Bearer '' @ t)\<rparr>)"

text \<open>The two fields read from a token response, or the exception of \<open>r.json()\<close>.\<close>

definition token_fields :: "body \<Rightarrow> exn + (string option \<times> string option)" where
  "token_fields b =
     (case b of
        NoJson m \<Rightarrow> Inl (OtherError m)
      | TokenDoc a rf \<Rightarrow> Inr (a, rf)
      | _ \<Rightarrow> Inr (None, None))"

definition ensure_auth :: "config \<Rightarrow> world \<Rightarrow> (exn + unit) \<times> world" where
  "ensure_auth cfg w =
     (if truthy (access_token w) then (Inr (), set_bearer w)
      else if truthy (username cfg) \<and> truthy (password cfg)
              \<and> truthy (client_id cfg) \<and> truthy (client_secret cfg)
      then (case send (emit (Post ''password'') w) of
              (Transport t, w1) \<Rightarrow> (Inl (OtherError t), w1)
            | (Resp r, w1) \<Rightarrow>
                (case raise_for_status r of
                   Inl e \<Rightarrow> (Inl e, w1)
                 | Inr _ \<Rightarrow>
                     (case token_fields (json r) of
                        Inl e \<Rightarrow> (Inl e, w1)
                      | Inr (a, rf) \<Rightarrow>
                          (Inr (), set_bearer (w1\<lparr>access_token := a, refresh_token := rf\<rparr>)))))
      else (Inr (), w))"

definition refresh_auth :: "config \<Rightarrow> world \<Rightarrow> (exn + bool) \<times> world" where
  "refresh_auth cfg w =
     (if \<not> truthy (refresh_token w) then (Inr False, w)
      else (case send (emit (Post ''refresh_token'') w) of
              (Transport t, w1) \<Rightarrow> (Inl (OtherError t), w1)
            | (Resp r, w1) \<Rightarrow>
                if status_code r = 200 then
                  (case token_fields (json r) of
                     Inl e \<Rightarrow> (Inl e, w1)
                   | Inr (a, rf) \<Rightarrow>
                       (let w2 = w1\<lparr>access_token := a,
                                    refresh_token := (if truthy rf then rf else refresh_token w1)\<rparr>
                        in if truthy a then (Inr True, set_bearer w2) else (Inr False, w2)))
                else (Inr False, w1)))"

text \<open>
  The GET of \<open>_limited_get\<close>: a permit of the per-minute window, a permit of the
  per-second window, then the request with the client's headers.
\<close>

definition api_get :: "string \<Rightarrow> query \<Rightarrow> world \<Rightarrow> reply \<times> world" where
  "api_get url q w =
     send (emit (Get Api url q (authorization w)) (emit (Acquire RPS) (emit (Acquire RPM) w)))"

text \<open>
  \<open>_limited_get\<close>. It calls itself after a 429 and after a 5xx with no bound, so the
  model counts the calls down: \<open>None\<close> is a call chain longer than the fuel.
\<close>

fun limited_get :: "config \<Rightarrow> lib \<Rightarrow> nat \<Rightarrow> string \<Rightarrow> query \<Rightarrow> world
    \<Rightarrow> ((exn + response) \<times> world) option" where
  "limited_get cfg L 0 url q w = None"
| "limited_get cfg L (Suc k) url q w =
     (case ensure_auth cfg w of
        (Inl e, w1) \<Rightarrow> Some (Inl e, w1)
      | (Inr _, w1) \<Rightarrow>
          (case api_get url q w1 of
             (Transport t, w2) \<Rightarrow> Some (Inl (OtherError t), w2)
           | (Resp r, w2) \<Rightarrow>
               if status_code r = 429 then
                 (case retry_delay L r of
                    Inl e \<Rightarrow> Some (Inl e, w2)
                  | Inr d \<Rightarrow> limited_get cfg L k url q (sleep d w2))
               else if 500 \<le> status_code r \<and> status_code r < 600 then
                 limited_get cfg L k url q (sleep (Fin 1) w2)
               else if status_code r = 401 then
                 (case refresh_auth cfg w2 of
                    (Inl e, w3) \<Rightarrow> Some (Inl e, w3)
                  | (Inr True, w3) \<Rightarrow>
                      (case api_get url q w3 of
                         (Transport t, w4) \<Rightarrow> Some (Inl (OtherError t), w4)
                       | (Resp r', w4) \<Rightarrow> Some (raise_for_status r', w4))
                  | (Inr False, w3) \<Rightarrow> Some (raise_for_status r, w3))
               else Some (raise_for_status r, w2)))"

text \<open>The endpoints: each returns \<open>resp.json()\<close>, which raises on an undecodable body.\<close>

definition decoded :: "((exn + response) \<times> world) option \<Rightarrow> ((exn + body) \<times> world) option" where
  "decoded x =
     (case x of
        None \<Rightarrow> None
      | Some (Inl e, w) \<Rightarrow> Some (Inl e, w)
      | Some (Inr r, w) \<Rightarrow>
          (case json r of
             NoJson m \<Rightarrow> Some (Inl (OtherError m), w)
           | b \<Rightarrow> Some (Inr b, w)))"

definition get_manga :: "config \<Rightarrow> lib \<Rightarrow> nat \<Rightarrow> string \<Rightarrow> world \<Rightarrow> ((exn + body) \<times> world) option" where
  "get_manga cfg L k mid w =
     decoded (limited_get cfg L k (base_url cfg @ ''/manga/'' @ mid) IncludesCoverArt w)"

definition get_manga_chapters :: "config \<Rightarrow> lib \<Rightarrow> nat \<Rightarrow> string \<Rightarrow> string \<Rightarrow> nat \<Rightarrow> nat \<Rightarrow> world
    \<Rightarrow> ((exn + body) \<times> world) option" where
  "get_manga_chapters cfg L k mid lang limit offset w =
     decoded (limited_get cfg L k (base_url cfg @ ''/chapter'')
       (ChapterQuery mid lang (max 1 (min limit 500)) offset) w)"

definition get_at_home :: "config \<Rightarrow> lib \<Rightarrow> nat \<Rightarrow> string \<Rightarrow> world \<Rightarrow> ((exn + body) \<times> world) option" where
  "get_at_home cfg L k cid w =
     decoded (limited_get cfg L k (base_url cfg @ ''/at-home/server/'' @ cid) NoQuery w)"

section \<open>Chapter filter (download\_manager.py, process\_job)\<close>

text \<open>\<open>x or []\<close> on an optional list.\<close>

definition or_empty :: "'a list option \<Rightarrow> 'a list" where
  "or_empty x = (case x of None \<Rightarrow> [] | Some xs \<Rightarrow> xs)"

definition volumes_filter :: "job_request \<Rightarrow> string list" where
  "volumes_filter job = or_empty (volumes job)"

definition chapters_filter :: "job_request \<Rightarrow> string list" where
  "chapters_filter job = or_empty (chapters job)"

text \<open>\<open>chapter_str_to_float\<close>: None for a missing label and for one \<open>float\<close> rejects.\<close>

definition chapter_str_to_float :: "lib \<Rightarrow> string option \<Rightarrow> pyfloat option" where
  "chapter_str_to_float L chval = (case chval of None \<Rightarrow> None | Some s \<Rightarrow> float_of_str L s)"

definition ch_start :: "lib \<Rightarrow> string list \<Rightarrow> pyfloat option" where
  "ch_start L cf = (if length cf = 2 then chapter_str_to_float L (Some (cf ! 0)) else None)"

definition ch_end :: "lib \<Rightarrow> string list \<Rightarrow> pyfloat option" where
  "ch_end L cf = (if length cf = 2 then chapter_str_to_float L (Some (cf ! 1)) else None)"

definition range_mode :: "lib \<Rightarrow> string list \<Rightarrow> bool" where
  "range_mode L cf = (length cf = 2 \<and> ch_start L cf \<noteq> None \<and> ch_end L cf \<noteq> None)"

definition include_chapter :: "lib \<Rightarrow> string list \<Rightarrow> string list \<Rightarrow> chapter_desc \<Rightarrow> bool" where
  "include_chapter L vf cf ch =
     (let chnum_f = chapter_str_to_float L (chnum ch) in
      if vf \<noteq> [] \<and> (case vol ch of None \<Rightarrow> True | Some v \<Rightarrow> v \<notin> set vf) then False
      else if cf \<noteq> [] then
        (if range_mode L cf then
           (case (chnum_f, ch_start L cf, ch_end L cf) of
              (Some x, Some a, Some b) \<Rightarrow> float_le a x \<and> float_le x b
            | _ \<Rightarrow> False)
         else (case chnum ch of None \<Rightarrow> False | Some c \<Rightarrow> c \<in> set cf))
      else True)"

text \<open>The filtering step of process\_job: applied only when a filter is configured.\<close>

definition select_chapters :: "lib \<Rightarrow> job_request \<Rightarrow> chapter_desc list \<Rightarrow> chapter_desc list" where
  "select_chapters L job chs =
     (if volumes_filter job \<noteq> [] \<or> chapters_filter job \<noteq> []
      then filter (include_chapter L (volumes_filter job) (chapters_filter job)) chs
      else chs)"

section \<open>Chapter discovery (download\_manager.py, process\_job)\<close>

definition fallback_limit :: nat where
  "fallback_limit = 100"

text \<open>\<open>chapters_json.get("data", [])\<close> and \<open>chapters_json.get("total", 0)\<close>.\<close>

definition page_of :: "body \<Rightarrow> chapter_desc list \<times> int" where
  "page_of b =
     (case b of
        ChapterPage d t \<Rightarrow> (d, (case t of None \<Rightarrow> 0 | Some n \<Rightarrow> n))
      | _ \<Rightarrow> ([], 0))"

text \<open>
  One page request with the two \<open>except httpx.HTTPStatusError\<close> handlers around it. The
  result is the page read (\<open>{"data": [], "total": 0}\<close> where a handler gave up) and the
  page size in force afterwards; \<open>Inl\<close> is an exception that leaves the while loop.
\<close>

definition fetch_page :: "config \<Rightarrow> lib \<Rightarrow> nat \<Rightarrow> string \<Rightarrow> string \<Rightarrow> nat \<Rightarrow> nat \<Rightarrow> world
    \<Rightarrow> ((exn + (chapter_desc list \<times> int) \<times> nat) \<times> world) option" where
  "fetch_page cfg L k mid lang limit offset w =
     (case get_manga_chapters cfg L k mid lang limit offset w of
        None \<Rightarrow> None
      | Some (Inr b, w1) \<Rightarrow> Some (Inr (page_of b, limit), w1)
      | Some (Inl (OtherError t), w1) \<Rightarrow> Some (Inl (OtherError t), w1)
      | Some (Inl (HTTPStatusError c t), w1) \<Rightarrow>
          if c = 400 \<and> limit \<noteq> fallback_limit then
            (case get_manga_chapters cfg L k mid lang fallback_limit offset w1 of
               None \<Rightarrow> None
             | Some (Inr b, w2) \<Rightarrow> Some (Inr (page_of b, fallback_limit), w2)
             | Some (Inl (HTTPStatusError c' t'), w2) \<Rightarrow> Some (Inr (([], 0), fallback_limit), w2)
             | Some (Inl (OtherError t'), w2) \<Rightarrow> Some (Inl (OtherError t'), w2))
          else Some (Inr (([], 0), limit), w1))"

text \<open>
  The \<open>while True\<close> loop. It runs as long as the server keeps sending non-empty pages
  below the total it reports, so the model counts the pages down: \<open>None\<close> is a listing
  longer than the fuel (or a request that outran its own). The result is the exception
  that left the loop, if any, and the chapters accumulated.
\<close>

fun list_pages :: "config \<Rightarrow> lib \<Rightarrow> nat \<Rightarrow> nat \<Rightarrow> string \<Rightarrow> string \<Rightarrow> nat \<Rightarrow> nat
    \<Rightarrow> chapter_desc list \<Rightarrow> world \<Rightarrow> ((exn option \<times> chapter_desc list) \<times> world) option" where
  "list_pages cfg L k 0 mid lang limit offset chs w = None"
| "list_pages cfg L k (Suc n) mid lang limit offset chs w =
     (case fetch_page cfg L k mid lang limit offset w of
        None \<Rightarrow> None
      | Some (Inl e, w1) \<Rightarrow> Some ((Some e, chs), w1)
      | Some (Inr ((batch, tot), limit'), w1) \<Rightarrow>
          if batch = [] then Some ((None, chs), w1)
          else if tot \<le> int (offset + length batch) then Some ((None, chs @ batch), w1)
          else list_pages cfg L k n mid lang limit' (offset + length batch) (chs @ batch) w1)"

text \<open>The listing with the \<open>except Exception\<close> around the loop: whatever was accumulated.\<close>

definition list_chapters :: "config \<Rightarrow> lib \<Rightarrow> nat \<Rightarrow> nat \<Rightarrow> string \<Rightarrow> string \<Rightarrow> world
    \<Rightarrow> (chapter_desc list \<times> world) option" where
  "list_chapters cfg L k n mid lang w =
     (case list_pages cfg L k n mid lang 500 0 [] w of
        None \<Rightarrow> None
      | Some ((e, chs), w1) \<Rightarrow> Some (chs, w1))"

section \<open>Image acquisition (download\_manager.py, process\_job)\<close>

text \<open>The locals of the per-chapter fetch: \<open>image_bytes\<close>, \<open>errors\<close>, \<open>consecutive_400s\<close>.\<close>

record acq =
  image_bytes :: "string list"
  acq_errors :: nat
  consecutive_400s :: nat

text \<open>\<open>pat in s\<close> on strings.\<close>

fun contains :: "string \<Rightarrow> string \<Rightarrow> bool" where
  "contains pat [] = (pat = [])"
| "contains pat (c # cs) = (take (length pat) (c # cs) = pat \<or> contains pat cs)"

text \<open>A GET under the per-second window alone (\<open>async with self.client.api_rps\<close>).\<close>

definition rps_get :: "sender \<Rightarrow> string \<Rightarrow> string option \<Rightarrow> world \<Rightarrow> reply \<times> world" where
  "rps_get who url auth w = send (emit (Get who url NoQuery auth) (emit (Acquire RPS) w))"

text \<open>
  The body of the \<open>try\<close> of one attempt, up to what it decides: the image was fetched,
  the server answered 429 and the code slept, or an exception was raised (by the GET, by
  \<open>float\<close> on the Retry-After header, or by \<open>raise_for_status\<close>).
\<close>

datatype outcome = Fetched string | Throttled pyfloat | Raised exn

definition attempt_outcome :: "lib \<Rightarrow> reply \<Rightarrow> outcome" where
  "attempt_outcome L rep =
     (case rep of
        Transport t \<Rightarrow> Raised (OtherError t)
      | Resp r \<Rightarrow>
          if status_code r = 429 then
            (case retry_delay L r of
               Inl e \<Rightarrow> Raised e
             | Inr d \<Rightarrow> Throttled d)
          else (case raise_for_status r of
                  Inl e \<Rightarrow> Raised e
                | Inr _ \<Rightarrow> Fetched (content r)))"

definition attempt_once :: "lib \<Rightarrow> string \<Rightarrow> world \<Rightarrow> outcome \<times> world" where
  "attempt_once L url w =
     (case rps_get ImageFetch url (authorization w) w of
        (rep, w1) \<Rightarrow>
          (case attempt_outcome L rep of
             Throttled d \<Rightarrow> (Throttled d, sleep d w1)
           | out \<Rightarrow> (out, w1)))"

definition breaker :: "string \<Rightarrow> string list \<Rightarrow> acq \<Rightarrow> bool" where
  "breaker data_kind data_regular a =
     (5 \<le> consecutive_400s a \<and> data_kind = ''data-saver'' \<and> data_regular \<noteq> [])"

text \<open>The \<open>except\<close> branch at \<open>attempt == 2\<close>, up to its \<open>break\<close>.\<close>

definition third_failure :: "exn \<Rightarrow> acq \<Rightarrow> acq" where
  "third_failure e a =
     (let a1 = a\<lparr>acq_errors := acq_errors a + 1\<rparr>
      in if contains ''400'' (exn_text e)
         then a1\<lparr>consecutive_400s := consecutive_400s a1 + 1\<rparr> else a1)"

text \<open>
  \<open>for attempt in range(3)\<close> of the first pass, over the attempt numbers still to run.
  \<open>continue\<close> after a 429 and the end of the \<open>except\<close> branch both go on with the next
  attempt number.
\<close>

fun fetch_image :: "lib \<Rightarrow> string \<Rightarrow> string list \<Rightarrow> string \<Rightarrow> nat list \<Rightarrow> acq \<times> world
    \<Rightarrow> acq \<times> world" where
  "fetch_image L data_kind data_regular url [] (a, w) = (a, w)"
| "fetch_image L data_kind data_regular url (attempt # rest) (a, w) =
     (case attempt_once L url w of
        (Fetched c, w1) \<Rightarrow> (a\<lparr>image_bytes := image_bytes a @ [c], consecutive_400s := 0\<rparr>, w1)
      | (Throttled d, w1) \<Rightarrow> fetch_image L data_kind data_regular url rest (a, w1)
      | (Raised e, w1) \<Rightarrow>
          if attempt = 2 then
            (let a1 = third_failure e a
             in if contains ''400'' (exn_text e) \<and> breaker data_kind data_regular a1 then (a1, w1)
                else fetch_image L data_kind data_regular url rest (a1, w1))
          else fetch_image L data_kind data_regular url rest (a, sleep (Fin 1) w1))"

definition image_url :: "string \<Rightarrow> string \<Rightarrow> string \<Rightarrow> string \<Rightarrow> string" where
  "image_url base data_kind chapter_hash img =
     base @ ''/'' @ data_kind @ ''/'' @ chapter_hash @ ''/'' @ img"

text \<open>\<open>for img in data\<close> of the first pass, with the circuit breaker after each image.\<close>

fun fetch_pass :: "lib \<Rightarrow> string \<Rightarrow> string \<Rightarrow> string \<Rightarrow> string list \<Rightarrow> string list
    \<Rightarrow> acq \<times> world \<Rightarrow> acq \<times> world" where
  "fetch_pass L base data_kind chapter_hash data_regular [] s = s"
| "fetch_pass L base data_kind chapter_hash data_regular (img # rest) s =
     (let s1 = fetch_image L data_kind data_regular
                 (image_url base data_kind chapter_hash img) [0..<3] s
      in if breaker data_kind data_regular (fst s1) then s1
         else fetch_pass L base data_kind chapter_hash data_regular rest s1)"

text \<open>The loops of the fallback pass: no circuit breaker, \<open>consecutive_400s\<close> untouched.\<close>

fun fetch_image_regular :: "lib \<Rightarrow> string \<Rightarrow> nat list \<Rightarrow> acq \<times> world \<Rightarrow> acq \<times> world" where
  "fetch_image_regular L url [] (a, w) = (a, w)"
| "fetch_image_regular L url (attempt # rest) (a, w) =
     (case attempt_once L url w of
        (Fetched c, w1) \<Rightarrow> (a\<lparr>image_bytes := image_bytes a @ [c]\<rparr>, w1)
      | (Throttled d, w1) \<Rightarrow> fetch_image_regular L url rest (a, w1)
      | (Raised e, w1) \<Rightarrow>
          if attempt = 2 then
            fetch_image_regular L url rest (a\<lparr>acq_errors := acq_errors a + 1\<rparr>, w1)
          else fetch_image_regular L url rest (a, sleep (Fin 1) w1))"

fun fetch_pass_regular :: "lib \<Rightarrow> string \<Rightarrow> string \<Rightarrow> string list \<Rightarrow> acq \<times> world
    \<Rightarrow> acq \<times> world" where
  "fetch_pass_regular L base chapter_hash [] s = s"
| "fetch_pass_regular L base chapter_hash (img # rest) s =
     fetch_pass_regular L base chapter_hash rest
       (fetch_image_regular L (image_url base ''data'' chapter_hash img) [0..<3] s)"

text \<open>The tier to fetch: the preferred one, or the other one when the preferred is empty.\<close>

definition choose_tier :: "bool \<Rightarrow> string list \<Rightarrow> string list \<Rightarrow> string list \<times> string" where
  "choose_tier prefer_datasaver data_regular data_saver =
     (if prefer_datasaver then
        (if data_saver = [] \<and> data_regular \<noteq> [] then (data_regular, ''data'')
         else (data_saver, ''data-saver''))
      else
        (if data_regular = [] \<and> data_saver \<noteq> [] then (data_saver, ''data-saver'')
         else (data_regular, ''data'')))"

text \<open>
  Both passes: the pass over the chosen tier and, when it fetched nothing from the
  data-saver tier and the regular tier has files, the pass over the regular tier with
  its adjustment of the error count. The result is \<open>image_bytes\<close> and \<open>errors\<close>.
\<close>

definition acquire_images :: "lib \<Rightarrow> string \<Rightarrow> string \<Rightarrow> string list \<Rightarrow> string list \<Rightarrow> string
    \<Rightarrow> nat \<Rightarrow> world \<Rightarrow> (string list \<times> nat) \<times> world" where
  "acquire_images L base chapter_hash data_regular data data_kind errs w =
     (case fetch_pass L base data_kind chapter_hash data_regular data
             (\<lparr>image_bytes = [], acq_errors = errs, consecutive_400s = 0\<rparr>, w) of
        (a, w1) \<Rightarrow>
          if image_bytes a = [] \<and> data_kind = ''data-saver'' \<and> data_regular \<noteq> [] then
            (let errors_before = acq_errors a
             in (case fetch_pass_regular L base chapter_hash data_regular
                        (a\<lparr>image_bytes := []\<rparr>, w1) of
                   (a2, w2) \<Rightarrow>
                     if image_bytes a2 \<noteq> [] then ((image_bytes a2, errors_before), w2)
                     else ((image_bytes a2, acq_errors a2), w2)))
          else ((image_bytes a, acq_errors a), w1))"

section \<open>Archive packaging (download\_manager.py, process\_job)\<close>

text \<open>\<open>x or d\<close> on an optional string.\<close>

definition or_else :: "string option \<Rightarrow> string \<Rightarrow> string" where
  "or_else x d = (case x of None \<Rightarrow> d | Some t \<Rightarrow> if t = [] then d else t)"

text \<open>Decimal digits of a number, and \<open>f"{idx:03d}.jpg"\<close>.\<close>

fun dec :: "nat \<Rightarrow> string" where
  "dec n = (if n < 10 then [char_of (48 + n)] else dec (n div 10) @ [char_of (48 + n mod 10)])"

definition entry_name :: "nat \<Rightarrow> string" where
  "entry_name idx = replicate (3 - length (dec idx)) (CHR ''0'') @ dec idx @ ''.jpg''"

text \<open>\<open>os.path.join\<close> of two parts (POSIX).\<close>

definition path_join :: "string \<Rightarrow> string \<Rightarrow> string" where
  "path_join a b =
     (if b \<noteq> [] \<and> hd b = CHR ''/'' then b
      else if a = [] \<or> last a = CHR ''/'' then a @ b
      else a @ ''/'' @ b)"

text \<open>
  \<open>"".join(c for c in s if c.isalnum() or c in allowed).strip()\<close>. Of the characters
  that pass the test only the space is white space, so \<open>strip\<close> removes spaces.
\<close>

definition strip_spaces :: "string \<Rightarrow> string" where
  "strip_spaces s =
     rev (dropWhile (\<lambda>c. c = CHR '' '') (rev (dropWhile (\<lambda>c. c = CHR '' '') s)))"

definition sanitize :: "lib \<Rightarrow> string \<Rightarrow> string \<Rightarrow> string" where
  "sanitize L allowed s = strip_spaces (filter (\<lambda>c. isalnum L c \<or> c \<in> set allowed) s)"

text \<open>
  One file-system operation: the text of the OSError it raises, if it does, and the state
  after it.
\<close>

definition io_step :: "world \<Rightarrow> string option \<times> world" where
  "io_step w = (io_fails w (ios w), w\<lparr>ios := Suc (ios w)\<rparr>)"

text \<open>
  Writing a plain file where the caller swallows the exception (cover.jpg, series.json):
  a failed write is modelled as leaving nothing.
\<close>

definition write_plain :: "string \<Rightarrow> string \<Rightarrow> world \<Rightarrow> world" where
  "write_plain path c w =
     (case io_step w of
        (Some m, w1) \<Rightarrow> w1
      | (None, w1) \<Rightarrow> w1\<lparr>files := (files w1)(path \<mapsto> Plain c)\<rparr>)"

text \<open>\<open>zf.writestr(name, content)\<close> on the archive open at \<open>tmp\<close>.\<close>

definition append_entry :: "string \<Rightarrow> string \<times> string \<Rightarrow> world \<Rightarrow> world" where
  "append_entry tmp e w =
     w\<lparr>files := (files w)(tmp \<mapsto>
        (case files w tmp of
           Some (Archive es fin) \<Rightarrow> Archive (es @ [e]) fin
         | _ \<Rightarrow> Archive [e] False))\<rparr>"

fun write_entries :: "string \<Rightarrow> (string \<times> string) list \<Rightarrow> world \<Rightarrow> (exn + unit) \<times> world" where
  "write_entries tmp [] w = (Inr (), w)"
| "write_entries tmp (e # rest) w =
     (case io_step w of
        (Some m, w1) \<Rightarrow> (Inl (OtherError m), w1)
      | (None, w1) \<Rightarrow> write_entries tmp rest (append_entry tmp e w1))"

text \<open>
  The entries of a chapter's archive: ComicInfo.xml first when it is not empty, then the
  images, numbered from 1, each after the Pillow step.
\<close>

definition zip_entries :: "lib \<Rightarrow> string \<Rightarrow> string list \<Rightarrow> (string \<times> string) list" where
  "zip_entries L xml images =
     (if xml = [] then [] else [(''ComicInfo.xml'', xml)])
     @ map (\<lambda>(idx, c). (entry_name idx, to_jpeg L c)) (zip [1..<Suc (length images)] images)"

text \<open>\<open>ZipFile.close\<close>: the end record is written and the archive at \<open>tmp\<close> is complete.\<close>

definition close_archive :: "string \<Rightarrow> world \<Rightarrow> world" where
  "close_archive tmp w =
     w\<lparr>files := (files w)(tmp \<mapsto>
        (case files w tmp of
           Some (Archive es fin) \<Rightarrow> Archive es True
         | _ \<Rightarrow> Archive [] True))\<rparr>"

text \<open>
  The \<open>with zipfile.ZipFile(tmp_path, "w")\<close> block: opening creates the file, every entry
  is one write, and leaving the block, at its end or through an exception of a write,
  closes the archive (\<open>ZipFile.__exit__\<close>). After a write that raised, the closed archive
  holds the entries written before it, and the block raises that write's exception; a
  close that raises leaves the archive not closed and raises its own.
\<close>

definition build_archive :: "string \<Rightarrow> (string \<times> string) list \<Rightarrow> world \<Rightarrow> (exn + unit) \<times> world" where
  "build_archive tmp entries w =
     (case io_step w of
        (Some m, w1) \<Rightarrow> (Inl (OtherError m), w1)
      | (None, w1) \<Rightarrow>
          (case write_entries tmp entries (w1\<lparr>files := (files w1)(tmp \<mapsto> Archive [] False)\<rparr>) of
             (r, w2) \<Rightarrow>
               (case io_step w2 of
                  (Some m, w3) \<Rightarrow> (Inl (OtherError m), w3)
                | (None, w3) \<Rightarrow> (r, close_archive tmp w3))))"

text \<open>
  \<open>shutil.move(tmp_path, final_path)\<close>: \<open>os.rename\<close> and, where that raises, a copy to the
  destination followed by the removal of the source. A move that succeeds has the file
  at the destination and no longer at the source. A move that raises leaves the source
  in place; at the destination it leaves what it had written there by then, which is
  the environment's to say: nothing (the rename that did not happen, a copy that could
  not start), or a file, truncated or whole (a copy that broke off, a copy whose
  source could not be removed).
\<close>

definition move :: "string \<Rightarrow> string \<Rightarrow> world \<Rightarrow> (exn + unit) \<times> world" where
  "move src dst w =
     (case io_step w of
        (Some m, w1) \<Rightarrow>
          (Inl (OtherError m),
           (case torn w (ios w) of
              None \<Rightarrow> w1
            | Some f \<Rightarrow> w1\<lparr>files := (files w1)(dst \<mapsto> f)\<rparr>))
      | (None, w1) \<Rightarrow> (Inr (), w1\<lparr>files := ((files w1)(dst := files w1 src))(src := None)\<rparr>))"

text \<open>The archive block and the move that follows it.\<close>

definition archive_chapter :: "string \<Rightarrow> string \<Rightarrow> (string \<times> string) list \<Rightarrow> world
    \<Rightarrow> (exn + unit) \<times> world" where
  "archive_chapter tmp final entries w =
     (case build_archive tmp entries w of
        (Inl e, w1) \<Rightarrow> (Inl e, w1)
      | (Inr _, w1) \<Rightarrow> move tmp final w1)"

text \<open>
  \<open>_download_series_metadata\<close>: the cover is fetched under the per-second window, with
  no headers, and nothing it raises leaves the function.
\<close>

definition fetch_cover :: "string \<Rightarrow> string \<Rightarrow> world \<Rightarrow> world" where
  "fetch_cover url cover_path w =
     (case rps_get CoverFetch url None w of
        (Transport t, w1) \<Rightarrow> w1
      | (Resp r, w1) \<Rightarrow>
          (case raise_for_status r of
             Inl e \<Rightarrow> w1
           | Inr _ \<Rightarrow> write_plain cover_path (content r) w1))"

definition download_series_metadata :: "lib \<Rightarrow> string \<Rightarrow> manga \<Rightarrow> string \<Rightarrow> world \<Rightarrow> world" where
  "download_series_metadata L series_dir m mid w =
     (let cover_path = path_join series_dir ''cover.jpg'';
          series_json_path = path_join series_dir ''series.json''
      in if files w cover_path \<noteq> None \<and> files w series_json_path \<noteq> None then w
         else
           (let w1 = (if files w cover_path = None \<and> truthy (cover_fileName m)
                      then fetch_cover
                             (''https://uploads.mangadex.org/covers/'' @ mid @ ''/''
                                @ or_else (cover_fileName m) [])
                             cover_path w
                      else w)
            in if files w1 series_json_path = None
               then write_plain series_json_path (series_json L m mid) w1
               else w1))"

text \<open>The names of one chapter's packaging.\<close>

definition series_dir_of :: "config \<Rightarrow> string option \<Rightarrow> string \<Rightarrow> string" where
  "series_dir_of cfg manga_title mid = path_join (library_root cfg) (or_else manga_title mid)"

definition chapter_number_of :: "chapter_desc \<Rightarrow> string \<Rightarrow> string" where
  "chapter_number_of ch cid = or_else (chnum ch) cid"

definition filename_of :: "lib \<Rightarrow> chapter_desc \<Rightarrow> string \<Rightarrow> string" where
  "filename_of L ch cid =
     (let safe_chapter_title = sanitize L '' -_.'' (or_else (title ch) [])
      in if safe_chapter_title = [] then ''c'' @ chapter_number_of ch cid @ ''.cbz''
         else ''c'' @ chapter_number_of ch cid @ '' '' @ safe_chapter_title @ ''.cbz'')"

definition tmp_path_of :: "config \<Rightarrow> string \<Rightarrow> string" where
  "tmp_path_of cfg cid = path_join (work_dir cfg) (cid @ ''.cbz.tmp'')"

definition final_path_of :: "config \<Rightarrow> lib \<Rightarrow> string option \<Rightarrow> string \<Rightarrow> chapter_desc \<Rightarrow> string
    \<Rightarrow> string" where
  "final_path_of cfg L manga_title mid ch cid =
     path_join (series_dir_of cfg manga_title mid) (filename_of L ch cid)"

text \<open>\<open>_create_comic_info_xml\<close>: empty without title data.\<close>

definition create_comic_info_xml :: "lib \<Rightarrow> manga option \<Rightarrow> chapter_desc \<Rightarrow> string \<Rightarrow> string
    \<Rightarrow> string" where
  "create_comic_info_xml L manga_data ch chapter_number chapter_title =
     (case manga_data of
        None \<Rightarrow> []
      | Some m \<Rightarrow> comic_info_xml L m ch chapter_number chapter_title)"

section \<open>The job pipeline (download\_manager.py, process\_job)\<close>

text \<open>The counters of the chapter loop.\<close>

record progress =
  created_files :: "string list"
  n_skipped_chapters :: nat
  n_skipped_external :: nat
  n_skipped_no_images :: nat
  n_errors :: nat
  metadata_downloaded :: bool

definition skip_chapter :: "progress \<Rightarrow> progress" where
  "skip_chapter p = p\<lparr>n_skipped_chapters := n_skipped_chapters p + 1\<rparr>"

definition skip_external :: "progress \<Rightarrow> progress" where
  "skip_external p = skip_chapter (p\<lparr>n_skipped_external := n_skipped_external p + 1\<rparr>)"

definition skip_no_images :: "progress \<Rightarrow> progress" where
  "skip_no_images p = skip_chapter (p\<lparr>n_skipped_no_images := n_skipped_no_images p + 1\<rparr>)"

definition skip_error :: "progress \<Rightarrow> progress" where
  "skip_error p = skip_chapter (p\<lparr>n_errors := n_errors p + 1\<rparr>)"

text \<open>
  Packaging one chapter whose images were fetched, first part: the series directory
  (\<open>os.makedirs\<close>) and, once per job, the series metadata. The calls to the library-scan
  collaborator made here go to another server through clients of their own, raise
  nothing into process\_job and change no counter; of them the model keeps the
  two-second sleep.
\<close>

definition prepare_chapter :: "config \<Rightarrow> lib \<Rightarrow> string option \<Rightarrow> manga option \<Rightarrow> string
    \<Rightarrow> progress \<Rightarrow> world \<Rightarrow> (exn + progress) \<times> world" where
  "prepare_chapter cfg L manga_title manga_data_full mid p w =
     (case io_step w of
        (Some m, w1) \<Rightarrow> (Inl (OtherError m), w1)
      | (None, w1) \<Rightarrow>
          (case manga_data_full of
             None \<Rightarrow> (Inr p, w1)
           | Some m \<Rightarrow>
               if metadata_downloaded p then (Inr p, w1)
               else (Inr (p\<lparr>metadata_downloaded := True\<rparr>),
                     sleep (Fin 2)
                       (download_series_metadata L (series_dir_of cfg manga_title mid) m mid w1))))"

text \<open>The entries of the archive of one chapter.\<close>

definition chapter_entries :: "lib \<Rightarrow> manga option \<Rightarrow> chapter_desc \<Rightarrow> string \<Rightarrow> string list
    \<Rightarrow> (string \<times> string) list" where
  "chapter_entries L manga_data_full ch cid images =
     zip_entries L
       (create_comic_info_xml L manga_data_full ch (chapter_number_of ch cid)
          (or_else (title ch) []))
       images"

text \<open>
  Packaging one chapter: the first part, the archive block at the temporary path, the
  move to the final path, the entry in \<open>created_files\<close>.
\<close>

definition package_chapter :: "config \<Rightarrow> lib \<Rightarrow> string option \<Rightarrow> manga option \<Rightarrow> string
    \<Rightarrow> chapter_desc \<Rightarrow> string \<Rightarrow> string list \<Rightarrow> progress \<Rightarrow> world \<Rightarrow> (exn + progress) \<times> world" where
  "package_chapter cfg L manga_title manga_data_full mid ch cid images p w =
     (case prepare_chapter cfg L manga_title manga_data_full mid p w of
        (Inl e, w2) \<Rightarrow> (Inl e, w2)
      | (Inr p1, w2) \<Rightarrow>
          (case archive_chapter (tmp_path_of cfg cid)
                  (final_path_of cfg L manga_title mid ch cid)
                  (chapter_entries L manga_data_full ch cid images) w2 of
             (Inl e, w3) \<Rightarrow> (Inl e, w3)
           | (Inr _, w3) \<Rightarrow>
               (Inr (p1\<lparr>created_files :=
                       created_files p1 @ [final_path_of cfg L manga_title mid ch cid]\<rparr>), w3)))"

text \<open>The fields of the at-home document.\<close>

definition at_home_fields :: "body \<Rightarrow> string option \<times> string option \<times> string list \<times> string list" where
  "at_home_fields b =
     (case b of AtHomeDoc base h d s \<Rightarrow> (base, h, d, s) | _ \<Rightarrow> (None, None, [], []))"

text \<open>One iteration of \<open>for ch in chapters\<close>.\<close>

definition process_chapter :: "config \<Rightarrow> lib \<Rightarrow> nat \<Rightarrow> string option \<Rightarrow> manga option \<Rightarrow> string
    \<Rightarrow> chapter_desc \<Rightarrow> progress \<Rightarrow> world \<Rightarrow> ((exn + progress) \<times> world) option" where
  "process_chapter cfg L k manga_title manga_data_full mid ch p w =
     (if \<not> truthy (chapter_id ch) then Some (Inr (skip_chapter p), w)
      else if truthy (externalUrl ch) then Some (Inr (skip_external p), w)
      else
        (case get_at_home cfg L k (or_else (chapter_id ch) []) w of
           None \<Rightarrow> None
         | Some (Inl e, w1) \<Rightarrow> Some (Inr (skip_error p), w1)
         | Some (Inr b, w1) \<Rightarrow>
             (case at_home_fields b of
                (base, chapter_hash, data_regular, data_saver) \<Rightarrow>
                  (case choose_tier (use_datasaver cfg) data_regular data_saver of
                     (data, data_kind) \<Rightarrow>
                       if \<not> (truthy base \<and> truthy chapter_hash \<and> data \<noteq> [])
                       then Some (Inr (skip_no_images p), w1)
                       else
                         (case acquire_images L (or_else base []) (or_else chapter_hash [])
                                 data_regular data data_kind (n_errors p) w1 of
                            ((images, errs), w2) \<Rightarrow>
                              if images = []
                              then Some (Inr (skip_no_images (p\<lparr>n_errors := errs\<rparr>)), w2)
                              else Some (package_chapter cfg L manga_title manga_data_full mid ch
                                           (or_else (chapter_id ch) []) images
                                           (p\<lparr>n_errors := errs\<rparr>) w2))))))"

fun chapters_loop :: "config \<Rightarrow> lib \<Rightarrow> nat \<Rightarrow> string option \<Rightarrow> manga option \<Rightarrow> string
    \<Rightarrow> chapter_desc list \<Rightarrow> progress \<Rightarrow> world \<Rightarrow> ((exn + progress) \<times> world) option" where
  "chapters_loop cfg L k manga_title manga_data_full mid [] p w = Some (Inr p, w)"
| "chapters_loop cfg L k manga_title manga_data_full mid (ch # rest) p w =
     (case process_chapter cfg L k manga_title manga_data_full mid ch p w of
        None \<Rightarrow> None
      | Some (Inl e, w1) \<Rightarrow> Some (Inl e, w1)
      | Some (Inr p1, w1) \<Rightarrow> chapters_loop cfg L k manga_title manga_data_full mid rest p1 w1)"

definition progress0 :: progress where
  "progress0 =
     \<lparr> created_files = [], n_skipped_chapters = 0, n_skipped_external = 0,
       n_skipped_no_images = 0, n_errors = 0, metadata_downloaded = False \<rparr>"

definition summary_of :: "chapter_desc list \<Rightarrow> progress \<Rightarrow> summary" where
  "summary_of chs p =
     \<lparr> chapters_processed = length chs,
       chapters_packaged = length (created_files p),
       files_created = created_files p,
       skipped_chapters = n_skipped_chapters p,
       skipped_external = n_skipped_external p,
       skipped_no_images = n_skipped_no_images p,
       errors = n_errors p \<rparr>"

text \<open>The title data read at the start of process\_job; nothing raised there leaves it.\<close>

definition manga_data_of :: "exn + body \<Rightarrow> manga option" where
  "manga_data_of r = (case r of Inr (MangaDoc m) \<Rightarrow> m | _ \<Rightarrow> None)"

definition manga_title_of :: "lib \<Rightarrow> manga option \<Rightarrow> string option" where
  "manga_title_of L md =
     (case md of
        None \<Rightarrow> None
      | Some m \<Rightarrow>
          if truthy (title_choice m)
          then Some (sanitize L '' -_.,()[]'' (or_else (title_choice m) []))
          else None)"

text \<open>
  process\_job: \<open>k\<close> bounds the calls of one \<open>_limited_get\<close> chain and \<open>n\<close> the pages of
  the listing; \<open>None\<close> is a run that outlasts them. \<open>Inl\<close> is the exception that leaves
  process\_job.
\<close>

definition process_job :: "config \<Rightarrow> lib \<Rightarrow> nat \<Rightarrow> nat \<Rightarrow> job_request \<Rightarrow> world
    \<Rightarrow> ((exn + summary) \<times> world) option" where
  "process_job cfg L k n job w =
     (case get_manga cfg L k (manga_id job) w of
        None \<Rightarrow> None
      | Some (r, w1) \<Rightarrow>
          (case list_chapters cfg L k n (manga_id job)
                  (or_else (language job) (default_language cfg)) w1 of
             None \<Rightarrow> None
           | Some (chs, w2) \<Rightarrow>
               (case chapters_loop cfg L k (manga_title_of L (manga_data_of r)) (manga_data_of r)
                       (manga_id job) (select_chapters L job chs) progress0 w2 of
                  None \<Rightarrow> None
                | Some (Inl e, w3) \<Rightarrow> Some (Inl e, w3)
                | Some (Inr p, w3) \<Rightarrow> Some (Inr (summary_of (select_chapters L job chs) p), w3))))"

section \<open>Job queue and worker (main.py)\<close>

datatype job_status = Queued | Running | Completed | Failed | Canceled | Aborted

record job =
  job_id :: string
  status :: job_status
  request :: job_request
  result :: "summary option"
  error :: "string option"

text \<open>The job table and the queue of job identifiers.\<close>

record server =
  jobs :: "string \<rightharpoonup> job"
  queue :: "string list"

definition add_job :: "string \<Rightarrow> job_request \<Rightarrow> server \<Rightarrow> server" where
  "add_job jid req s =
     s\<lparr>jobs := (jobs s)(jid \<mapsto>
          \<lparr>job_id = jid, status = Queued, request = req, result = None, error = None\<rparr>),
       queue := queue s @ [jid]\<rparr>"

text \<open>The two endpoints that stop a job; \<open>Inl\<close> is the status code of the HTTPException.\<close>

definition abort_job :: "string \<Rightarrow> server \<Rightarrow> (nat + job_status) \<times> server" where
  "abort_job jid s =
     (case jobs s jid of
        None \<Rightarrow> (Inl 404, s)
      | Some j \<Rightarrow>
          if status j = Running \<or> status j = Queued
          then (Inr Aborted,
                s\<lparr>jobs := (jobs s)(jid \<mapsto> j\<lparr>status := Aborted, error := Some ''Aborted by user''\<rparr>)\<rparr>)
          else (Inr (status j), s))"

definition cancel_job :: "string \<Rightarrow> server \<Rightarrow> (nat + job_status) \<times> server" where
  "cancel_job jid s =
     (case jobs s jid of
        None \<Rightarrow> (Inl 404, s)
      | Some j \<Rightarrow>
          if status j \<noteq> Queued then (Inl 400, s)
          else (Inr Canceled, s\<lparr>jobs := (jobs s)(jid \<mapsto> j\<lparr>status := Canceled\<rparr>)\<rparr>))"

text \<open>
  The head of one iteration of the worker loop, up to the call of process\_job: the
  worker waits on an empty queue, discards the identifier, or marks the job running and
  starts the pipeline on a copy of its request.
\<close>

datatype dequeued = Waiting | Discarded | Started string job_request

definition worker_dequeue :: "server \<Rightarrow> dequeued \<times> server" where
  "worker_dequeue s =
     (case queue s of
        [] \<Rightarrow> (Waiting, s)
      | jid # rest \<Rightarrow>
          (case jobs s jid of
             None \<Rightarrow> (Discarded, s\<lparr>queue := rest\<rparr>)
           | Some j \<Rightarrow>
               if status j = Aborted then (Discarded, s\<lparr>queue := rest\<rparr>)
               else (Started jid (request j),
                     s\<lparr>queue := rest, jobs := (jobs s)(jid \<mapsto> j\<lparr>status := Running\<rparr>)\<rparr>)))"

text \<open>
  The rest of the iteration, once process\_job has returned or raised. Requests served
  while the pipeline ran may have changed the table in between.
\<close>

definition worker_finish :: "string \<Rightarrow> exn + summary \<Rightarrow> server \<Rightarrow> server" where
  "worker_finish jid r s =
     (case jobs s jid of
        None \<Rightarrow> s
      | Some j \<Rightarrow>
          (case r of
             Inr res \<Rightarrow>
               s\<lparr>jobs := (jobs s)(jid \<mapsto>
                    (if status j = Aborted then j else j\<lparr>status := Completed\<rparr>)\<lparr>result := Some res\<rparr>)\<rparr>
           | Inl e \<Rightarrow>
               s\<lparr>jobs := (jobs s)(jid \<mapsto> j\<lparr>status := Failed, error := Some (exn_text e)\<rparr>)\<rparr>))"

text \<open>One whole iteration with no request served in between.\<close>

definition worker_iteration :: "config \<Rightarrow> lib \<Rightarrow> nat \<Rightarrow> nat \<Rightarrow> server \<times> world
    \<Rightarrow> (dequeued \<times> server \<times> world) option" where
  "worker_iteration cfg L k n sw =
     (case sw of
        (s, w) \<Rightarrow>
          (case worker_dequeue s of
             (Started jid req, s1) \<Rightarrow>
               (case process_job cfg L k n req w of
                  None \<Rightarrow> None
                | Some (r, w1) \<Rightarrow> Some (Started jid req, worker_finish jid r s1, w1))
           | (d, s1) \<Rightarrow> Some (d, s1, w)))"

section \<open>Reading the trace\<close>

text \<open>
  Which permits a request was sent under: the windows acquired since the request before
  it. \<open>permits need held es\<close> runs through the events with the permits held so far and
  is \<open>None\<close> as soon as a GET is sent under permits other than those \<open>need\<close> names for
  its sender; otherwise it is the permits left over at the end.
\<close>

fun permits :: "(sender \<Rightarrow> window set) \<Rightarrow> window set \<Rightarrow> event list \<Rightarrow> window set option" where
  "permits need held [] = Some held"
| "permits need held (Acquire x # es) = permits need (insert x held) es"
| "permits need held (Get who url q auth # es) =
     (if need who = held then permits need {} es else None)"
| "permits need held (Post g # es) = permits need held es"
| "permits need held (Sleep d # es) = permits need held es"

text \<open>Every sender under both windows, and what the code does.\<close>

definition both_windows :: "sender \<Rightarrow> window set" where
  "both_windows who = {RPM, RPS}"

definition windows_of :: "sender \<Rightarrow> window set" where
  "windows_of who = (case who of Api \<Rightarrow> {RPM, RPS} | ImageFetch \<Rightarrow> {RPS} | CoverFetch \<Rightarrow> {RPS})"

text \<open>The events between two states.\<close>

definition events_since :: "world \<Rightarrow> world \<Rightarrow> event list" where
  "events_since w w' = drop (length (trace w)) (trace w')"

text \<open>What the code decides on the reply to the i-th request from now on.\<close>

definition outcome_at :: "lib \<Rightarrow> world \<Rightarrow> nat \<Rightarrow> outcome" where
  "outcome_at L w i = attempt_outcome L (net w (sent w + i))"

fun fetched :: "outcome \<Rightarrow> bool" where
  "fetched (Fetched c) = True"
| "fetched out = False"



text \<open>
  Counting a chapter once: one more produced file and no skip counter touched, or one
  more skipped chapter, no new file and at most one of the two sub-reasons counted.
\<close>

definition counted_once :: "progress \<Rightarrow> progress \<Rightarrow> bool" where
  "counted_once p p' =
     ((\<exists>path. created_files p' = created_files p @ [path])
        \<and> n_skipped_chapters p' = n_skipped_chapters p
        \<and> n_skipped_external p' = n_skipped_external p
        \<and> n_skipped_no_images p' = n_skipped_no_images p
      \<or> created_files p' = created_files p
        \<and> n_skipped_chapters p' = n_skipped_chapters p + 1
        \<and> n_skipped_external p \<le> n_skipped_external p'
        \<and> n_skipped_no_images p \<le> n_skipped_no_images p'
        \<and> n_skipped_external p' + n_skipped_no_images p'
            \<le> n_skipped_external p + n_skipped_no_images p + 1)"

text \<open>
  Between two states every GET was sent under exactly the permits of \<open>windows_of\<close>, and
  no permit was taken that no request used.
\<close>

definition paced :: "world \<Rightarrow> world \<Rightarrow> bool" where
  "paced w w' = (\<exists>d. trace w' = trace w @ d \<and> permits windows_of {} d = Some {})"

section \<open>Sample inputs\<close>

text \<open>
  Stand-ins for the library functions at concrete inputs. The one for \<open>float\<close> reads
  plain decimal digit strings of at most 15 digits, where its value is exactly Python's,
  and rejects everything else; the one for \<open>isalnum\<close> knows the ASCII digits; the Pillow
  step leaves the payload as it is; the renderers return fixed documents.
\<close>

definition digit_val :: "char \<Rightarrow> nat option" where
  "digit_val c =
     (let n = (of_char c :: nat) in if 48 \<le> n \<and> n \<le> 57 then Some (n - 48) else None)"

fun digits_val :: "nat \<Rightarrow> string \<Rightarrow> nat option" where
  "digits_val acc [] = Some acc"
| "digits_val acc (c # cs) =
     (case digit_val c of None \<Rightarrow> None | Some d \<Rightarrow> digits_val (10 * acc + d) cs)"

definition digits_float :: "string \<Rightarrow> pyfloat option" where
  "digits_float s =
     (if s = [] \<or> 15 < length s then None
      else (case digits_val 0 s of None \<Rightarrow> None | Some n \<Rightarrow> Some (Fin (real n))))"

definition demo_lib :: lib where
  "demo_lib =
     \<lparr> float_of_str = digits_float,
       isalnum = (\<lambda>c. digit_val c \<noteq> None),
       to_jpeg = (\<lambda>b. b),
       series_json = (\<lambda>m i. ''{}''),
       comic_info_xml = (\<lambda>m ch n t. ''<ComicInfo />'') \<rparr>"

definition demo_chapter :: "string \<Rightarrow> string option \<Rightarrow> chapter_desc" where
  "demo_chapter i n =
     \<lparr> chapter_id = Some i, vol = None, chnum = n, externalUrl = None,
       title = None, translatedLanguage = Some ''en'' \<rparr>"

text \<open>A network that answers from a list and then fails in the transport.\<close>

definition script :: "reply list \<Rightarrow> nat \<Rightarrow> reply" where
  "script rs i = (if i < length rs then rs ! i else Transport ''connection closed'')"

definition ok_resp :: "string \<Rightarrow> body \<Rightarrow> reply" where
  "ok_resp c b =
     Resp \<lparr>status_code = 200, retry_after = None, content = c, json = b, error_text = []\<rparr>"

definition status_resp :: "nat \<Rightarrow> string \<Rightarrow> reply" where
  "status_resp n t =
     Resp \<lparr>status_code = n, retry_after = None, content = [], json = OtherDoc, error_text = t\<rparr>"

definition world_of :: "reply list \<Rightarrow> world" where
  "world_of rs =
     \<lparr> net = script rs, sent = 0, trace = [], access_token = None, refresh_token = None,
       authorization = None, files = Map.empty, io_fails = (\<lambda>i. None),
       torn = (\<lambda>i. None), ios = 0 \<rparr>"

definition demo_cfg :: config where
  "demo_cfg =
     \<lparr> base_url = ''https://api.mangadex.org'', username = None, password = None,
       client_id = None, client_secret = None, library_root = ''/library'',
       work_dir = ''/app/data'', default_language = ''en'', use_datasaver = True \<rparr>"

definition server0 :: server where
  "server0 = \<lparr> jobs = Map.empty, queue = [] \<rparr>"

definition demo_job :: "string list option \<Rightarrow> string list option \<Rightarrow> job_request" where
  "demo_job vs cs = \<lparr> manga_id = ''m1'', language = None, volumes = vs, chapters = cs \<rparr>"

definition demo_chapters :: "chapter_desc list" where
  "demo_chapters =
     [demo_chapter ''a'' (Some ''3''), demo_chapter ''b'' (Some ''7''),
      demo_chapter ''c'' None, demo_chapter ''d'' (Some ''x'')]"

definition acq0 :: acq where
  "acq0 = \<lparr>image_bytes = [], acq_errors = 0, consecutive_400s = 0\<rparr>"

definition throttled_thrice :: world where
  "throttled_thrice =
     world_of [status_resp 429 ''429'', status_resp 429 ''429'', status_resp 429 ''429'',
               ok_resp ''img'' OtherDoc]"

definition throttled_then_error :: world where
  "throttled_then_error =
     world_of [status_resp 429 ''429'', status_resp 429 ''429'', status_resp 503 ''503'']"

definition throttled_then_ok :: world where
  "throttled_then_ok = world_of [status_resp 429 ''429'', ok_resp ''img'' OtherDoc]"

definition fallback_replies :: "reply list" where
  "fallback_replies =
     [status_resp 404 ''404'',
      ok_resp [] (ChapterPage [demo_chapter ''c1'' (Some ''1'')] (Some 1)),
      ok_resp [] (AtHomeDoc (Some ''https://node'') (Some ''h'') [''r1.png''] [''s1.jpg'']),
      status_resp 503 ''503'', status_resp 503 ''503'', status_resp 503 ''503'',
      ok_resp ''IMG'' OtherDoc]"


text \<open>A server that rejects the first page request and then answers with a one-chapter page.\<close>

definition page_rejected :: world where
  "page_rejected =
     world_of [status_resp 400 ''400'',
               ok_resp [] (ChapterPage [demo_chapter ''c1'' (Some ''1'')] (Some 1))]"

text \<open>A disk on which the fourth file-system operation raises.\<close>

definition disk_fails_midway :: world where
  "disk_fails_midway =
     (world_of [])\<lparr>io_fails := (\<lambda>i. if i = 3 then Some ''No space left on device'' else None)\<rparr>"

text \<open>The same disk, with a file of an earlier run at the final path of chapter c1.\<close>

definition stale_destination :: world where
  "stale_destination =
     disk_fails_midway\<lparr>files := [''/library/m1/c1.cbz'' \<mapsto> Plain ''earlier'']\<rparr>"

text \<open>
  A disk on which the move (the sixth operation of a two-image chapter) raises after
  its copy has written a first part of the archive to the destination.
\<close>

definition move_breaks_off :: world where
  "move_breaks_off =
     (world_of [])\<lparr>io_fails := (\<lambda>i. if i = 5 then Some ''No space left on device'' else None),
                   torn := (\<lambda>i. if i = 5 then Some (Archive [(''001.jpg'', ''A'')] False)
                                 else None)\<rparr>"

text \<open>
  A title with three chapters: one that can be fetched, one hosted elsewhere, one without
  an identifier.
\<close>

definition mixed_replies :: "reply list" where
  "mixed_replies =
     [status_resp 404 ''404'',
      ok_resp [] (ChapterPage
        [demo_chapter ''c1'' (Some ''1''),
         (demo_chapter ''c2'' (Some ''2''))\<lparr>externalUrl := Some ''https://elsewhere''\<rparr>,
         (demo_chapter ''c3'' (Some ''3''))\<lparr>chapter_id := None\<rparr>] (Some 3)),
      ok_resp [] (AtHomeDoc (Some ''https://node'') (Some ''h'') [''r1.png''] []),
      ok_resp ''IMG'' OtherDoc]"

text \<open>
  A title with a cover and one chapter of one image, every request answered at once, and
  the events process\_job produces against it.
\<close>

definition full_replies :: "reply list" where
  "full_replies =
     [ok_resp [] (MangaDoc (Some \<lparr>title_choice = Some ''T1'', cover_fileName = Some ''cv.png'',
                                   document = []\<rparr>)),
      ok_resp [] (ChapterPage [demo_chapter ''c1'' (Some ''1'')] (Some 1)),
      ok_resp [] (AtHomeDoc (Some ''https://node'') (Some ''h'') [''r1.png''] []),
      ok_resp ''IMG'' OtherDoc,
      ok_resp ''COVER'' OtherDoc]"

definition full_trace :: "event list" where
  "full_trace =
     [Acquire RPM, Acquire RPS,
      Get Api ''https://api.mangadex.org/manga/m1'' IncludesCoverArt None,
      Acquire RPM, Acquire RPS,
      Get Api ''https://api.mangadex.org/chapter'' (ChapterQuery ''m1'' ''en'' 500 0) None,
      Acquire RPM, Acquire RPS,
      Get Api ''https://api.mangadex.org/at-home/server/c1'' NoQuery None,
      Acquire RPS,
      Get ImageFetch ''https://node/data/h/r1.png'' NoQuery None,
      Acquire RPS,
      Get CoverFetch ''https://uploads.mangadex.org/covers/m1/cv.png'' NoQuery None,
      Sleep (Fin 2)]"

section \<open>Bookkeeping of the state\<close>

lemma emit_fields [simp]:
  "sent (emit e w) = sent w" "net (emit e w) = net w"
  "trace (emit e w) = trace w @ [e]" "authorization (emit e w) = authorization w"
  "access_token (emit e w) = access_token w" "refresh_token (emit e w) = refresh_token w"
  "files (emit e w) = files w" "io_fails (emit e w) = io_fails w" "ios (emit e w) = ios w"
  by (simp_all add: emit_def)

lemma sleep_fields [simp]:
  "sent (sleep d w) = sent w" "net (sleep d w) = net w"
  "trace (sleep d w) = trace w @ [Sleep d]" "authorization (sleep d w) = authorization w"
  by (simp_all add: sleep_def emit_def)

section \<open>Properties of the filter\<close>

lemma include_chapter_no_filter: "include_chapter L [] [] ch"
  by (simp add: include_chapter_def)

text \<open>
  C6. With no volume filter and no chapter filter configured (each absent or an empty
  list), filtering returns the chapter list itself: same content, same order.
\<close>

theorem select_chapters_empty_spec:
  assumes "volumes job = None \<or> volumes job = Some []"
    and "chapters job = None \<or> chapters job = Some []"
  shows "select_chapters L job chs = chs"
  using assms
  by (auto simp: select_chapters_def volumes_filter_def chapters_filter_def or_empty_def)

theorem select_chapters_empty_spec_witness:
  "select_chapters demo_lib (demo_job None (Some [])) demo_chapters = demo_chapters"
  using select_chapters_empty_spec [of "demo_job None (Some [])" demo_lib demo_chapters]
  by (simp add: demo_job_def)

lemma include_chapter_range:
  assumes "float_of_str L sa = Some a" and "float_of_str L sb = Some b"
    and "include_chapter L vf [sa, sb] ch"
  shows "\<exists>s x. chnum ch = Some s \<and> float_of_str L s = Some x \<and> float_le a x \<and> float_le x b"
  using assms
  by (auto simp: include_chapter_def range_mode_def ch_start_def ch_end_def
      chapter_str_to_float_def split: if_splits option.splits)

text \<open>
  C7. When the chapter filter is a two-element list whose elements both parse as numbers
  \<open>a\<close> and \<open>b\<close> with \<open>a \<le> b\<close>, every retained chapter has a chapter-number label that
  parses as a number lying in the inclusive range from \<open>a\<close> to \<open>b\<close>, and no chapter
  whose label is missing or does not parse is retained.
\<close>

theorem range_filter_retains_only_in_range:
  assumes "chapters job = Some [sa, sb]"
    and "float_of_str L sa = Some a" and "float_of_str L sb = Some b"
    and "float_le a b"
  shows "(\<forall>ch \<in> set (select_chapters L job chs).
            \<exists>s x. chnum ch = Some s \<and> float_of_str L s = Some x \<and> float_le a x \<and> float_le x b)
       \<and> (\<forall>ch. chapter_str_to_float L (chnum ch) = None \<longrightarrow>
                 ch \<notin> set (select_chapters L job chs))"
proof -
  have cf: "chapters_filter job = [sa, sb]"
    using assms(1) by (simp add: chapters_filter_def or_empty_def)
  have kept: "\<exists>s x. chnum ch = Some s \<and> float_of_str L s = Some x \<and> float_le a x \<and> float_le x b"
    if "ch \<in> set (select_chapters L job chs)" for ch
  proof -
    from that have "include_chapter L (volumes_filter job) [sa, sb] ch"
      by (simp add: select_chapters_def cf)
    with assms(2,3) show ?thesis by (rule include_chapter_range)
  qed
  show ?thesis
  proof (intro conjI ballI allI impI)
    fix ch :: chapter_desc
    assume "ch \<in> set (select_chapters L job chs)"
    then show "\<exists>s x. chnum ch = Some s \<and> float_of_str L s = Some x \<and> float_le a x \<and> float_le x b"
      by (rule kept)
  next
    fix ch :: chapter_desc
    assume none: "chapter_str_to_float L (chnum ch) = None"
    show "ch \<notin> set (select_chapters L job chs)"
    proof
      assume "ch \<in> set (select_chapters L job chs)"
      from kept [OF this] none show False
        by (auto simp: chapter_str_to_float_def)
    qed
  qed
qed

theorem range_filter_retains_only_in_range_witness:
  "select_chapters demo_lib (demo_job None (Some [''1'', ''5''])) demo_chapters
     = [demo_chapter ''a'' (Some ''3'')]
   \<and> float_of_str demo_lib ''1'' = Some (Fin 1) \<and> float_of_str demo_lib ''5'' = Some (Fin 5)
   \<and> float_le (Fin 1) (Fin 5)
   \<and> (\<exists>s x. chnum (demo_chapter ''a'' (Some ''3'')) = Some s \<and> float_of_str demo_lib s = Some x
         \<and> float_le (Fin 1) x \<and> float_le x (Fin 5))
   \<and> demo_chapter ''d'' (Some ''x'') \<notin> set (select_chapters demo_lib (demo_job None (Some [''1'', ''5''])) demo_chapters)"
proof -
  have p1: "float_of_str demo_lib ''1'' = Some (Fin 1)"
    by (simp add: demo_lib_def digits_float_def digit_val_def)
  have p5: "float_of_str demo_lib ''5'' = Some (Fin 5)"
    by (simp add: demo_lib_def digits_float_def digit_val_def)
  have p3: "float_of_str demo_lib ''3'' = Some (Fin 3)"
    by (simp add: demo_lib_def digits_float_def digit_val_def)
  have p7: "float_of_str demo_lib ''7'' = Some (Fin 7)"
    by (simp add: demo_lib_def digits_float_def digit_val_def)
  have px: "float_of_str demo_lib ''x'' = None"
    by (simp add: demo_lib_def digits_float_def digit_val_def)
  have le: "float_le (Fin 1) (Fin 5)" by simp
  have sel: "select_chapters demo_lib (demo_job None (Some [''1'', ''5''])) demo_chapters
     = [demo_chapter ''a'' (Some ''3'')]"
    by (simp add: select_chapters_def volumes_filter_def chapters_filter_def or_empty_def
        demo_job_def demo_chapters_def demo_chapter_def include_chapter_def range_mode_def
        ch_start_def ch_end_def chapter_str_to_float_def p1 p5 p3 p7 px)
  have c: "chapters (demo_job None (Some [''1'', ''5''])) = Some [''1'', ''5'']"
    by (simp add: demo_job_def)
  from range_filter_retains_only_in_range [OF c p1 p5 le, of demo_chapters]
  have "\<exists>s x. chnum (demo_chapter ''a'' (Some ''3'')) = Some s \<and> float_of_str demo_lib s = Some x
         \<and> float_le (Fin 1) x \<and> float_le x (Fin 5)"
    and "demo_chapter ''d'' (Some ''x'') \<notin> set (select_chapters demo_lib (demo_job None (Some [''1'', ''5''])) demo_chapters)"
    by (simp_all add: sel chapter_str_to_float_def demo_chapter_def px)
  with p1 p5 le sel show ?thesis by simp
qed

section \<open>The per-image retry loop\<close>

lemma attempt_onceD:
  assumes "attempt_once L url w = (out, w1)"
  shows "outcome_at L w 0 = out" and "sent w1 = Suc (sent w)" and "net w1 = net w"
    and "trace w1 = trace w @ [Acquire RPS, Get ImageFetch url NoQuery (authorization w)]
            @ (case out of Throttled d \<Rightarrow> [Sleep d] | _ \<Rightarrow> [])"
  using assms
  by (auto simp: attempt_once_def rps_get_def send_def emit_def sleep_def outcome_at_def
      emit_fields sleep_fields split: outcome.splits)

text \<open>A 429 whose Retry-After header is absent or a number is what throttles an attempt.\<close>

lemma throttled_iff:
  "outcome_at L w i = Throttled d
     \<longleftrightarrow> (\<exists>r. net w (sent w + i) = Resp r \<and> status_code r = 429 \<and> retry_delay L r = Inr d)"
  by (auto simp: outcome_at_def attempt_outcome_def raise_for_status_def
      split: reply.splits sum.splits if_splits)

lemma retry_delay_default: "retry_after r = None \<Longrightarrow> retry_delay L r = Inr (Fin 2)"
  by (simp add: retry_delay_def)

lemma upt3: "[0..<3] = [0, 1, 2]"
  by (simp add: upt_rec)

lemma outcome_at_shift:
  "net w1 = net w \<Longrightarrow> sent w1 = sent w + k \<Longrightarrow> outcome_at L w1 i = outcome_at L w (k + i)"
  by (simp add: outcome_at_def add.assoc)

text \<open>
  C2 (as amended). Each image gets at least one and at most three requests, whatever the
  replies are: a 429 is followed by a sleep of the delay the server suggests (two seconds
  without a Retry-After header) and then by the next of the three attempts, so it uses
  an attempt up as any other failure does; an exception at the first or second attempt
  is followed by a sleep of one second. The image is kept at the first reply that is a
  success, and nothing is recorded against it then; with no success among the three
  replies it is dropped; and when the third attempt raises, one error is recorded.
\<close>

theorem fetch_image_attempt_budget:
  assumes run: "fetch_image L data_kind data_regular url [0..<3] (a, w) = (a', w')"
  shows "sent w < sent w' \<and> sent w' \<le> sent w + 3
    \<and> (\<forall>i<3. \<forall>c. outcome_at L w i = Fetched c \<and> (\<forall>j<i. \<not> fetched (outcome_at L w j))
          \<longrightarrow> image_bytes a' = image_bytes a @ [c] \<and> acq_errors a' = acq_errors a
              \<and> sent w' = sent w + i + 1)
    \<and> ((\<forall>i<3. \<not> fetched (outcome_at L w i))
          \<longrightarrow> image_bytes a' = image_bytes a \<and> sent w' = sent w + 3)
    \<and> (\<forall>e. (\<forall>i<2. \<not> fetched (outcome_at L w i)) \<and> outcome_at L w 2 = Raised e
          \<longrightarrow> acq_errors a' = acq_errors a + 1)
    \<and> (\<forall>i<3. \<forall>d. outcome_at L w i = Throttled d \<and> (\<forall>j<i. \<not> fetched (outcome_at L w j))
          \<longrightarrow> Sleep d \<in> set (events_since w w'))
    \<and> (\<forall>i<2. \<forall>e. outcome_at L w i = Raised e \<and> (\<forall>j<i. \<not> fetched (outcome_at L w j))
          \<longrightarrow> Sleep (Fin 1) \<in> set (events_since w w'))"
proof -
  obtain o0 w1 where s0: "attempt_once L url w = (o0, w1)" by (cases "attempt_once L url w")
  obtain o1 w2 where s1: "attempt_once L url (case o0 of Raised e \<Rightarrow> sleep (Fin 1) w1 | _ \<Rightarrow> w1) = (o1, w2)"
    by (cases "attempt_once L url (case o0 of Raised e \<Rightarrow> sleep (Fin 1) w1 | _ \<Rightarrow> w1)")
  obtain o2 w3 where s2: "attempt_once L url (case o1 of Raised e \<Rightarrow> sleep (Fin 1) w2 | _ \<Rightarrow> w2) = (o2, w3)"
    by (cases "attempt_once L url (case o1 of Raised e \<Rightarrow> sleep (Fin 1) w2 | _ \<Rightarrow> w2)")
  note d0 = attempt_onceD [OF s0] and d1 = attempt_onceD [OF s1] and d2 = attempt_onceD [OF s2]
  have all3: "(\<forall>i<3. P i) = (P 0 \<and> P 1 \<and> P (2::nat))" for P
    by (auto simp: less_Suc_eq numeral_3_eq_3 numeral_2_eq_2)
  have all2: "(\<forall>i<2. P i) = (P 0 \<and> P (1::nat))" for P
    by (auto simp: less_Suc_eq numeral_2_eq_2)
  have ex2: "(\<exists>i<2. P i) = (P 0 \<or> P (1::nat))" for P
    by (auto simp: less_Suc_eq numeral_2_eq_2)
  show ?thesis
  proof (cases o0)
    case (Fetched c)
    with run s0 d0 show ?thesis
      by (auto simp: upt3 all3 all2 ex2 events_since_def)
  next
    case T0: (Throttled t0)
    show ?thesis
    proof (cases o1)
      case (Fetched c)
      with T0 run s0 s1 d0 d1 show ?thesis
        by (auto simp: upt3 all3 all2 ex2 events_since_def outcome_at_def)
    next
      case T1: (Throttled t1)
      show ?thesis
      proof (cases o2)
        case (Fetched c)
        with T0 T1 run s0 s1 s2 d0 d1 d2 show ?thesis
          by (auto simp: upt3 all3 all2 ex2 events_since_def outcome_at_def)
      next
        case (Throttled t2)
        with T0 T1 run s0 s1 s2 d0 d1 d2 show ?thesis
          by (auto simp: upt3 all3 all2 ex2 events_since_def outcome_at_def)
      next
        case (Raised e2)
        with T0 T1 run s0 s1 s2 d0 d1 d2 show ?thesis
          by (auto simp: upt3 all3 all2 ex2 events_since_def outcome_at_def third_failure_def Let_def split: if_splits)
      qed
    next
      case R1: (Raised e1)
      show ?thesis
      proof (cases o2)
        case (Fetched c)
        with T0 R1 run s0 s1 s2 d0 d1 d2 show ?thesis
          by (auto simp: upt3 all3 all2 ex2 events_since_def outcome_at_def)
      next
        case (Throttled t2)
        with T0 R1 run s0 s1 s2 d0 d1 d2 show ?thesis
          by (auto simp: upt3 all3 all2 ex2 events_since_def outcome_at_def)
      next
        case (Raised e2)
        with T0 R1 run s0 s1 s2 d0 d1 d2 show ?thesis
          by (auto simp: upt3 all3 all2 ex2 events_since_def outcome_at_def third_failure_def Let_def split: if_splits)
      qed
    qed
  next
    case R0: (Raised e0)
    show ?thesis
    proof (cases o1)
      case (Fetched c)
      with R0 run s0 s1 d0 d1 show ?thesis
        by (auto simp: upt3 all3 all2 ex2 events_since_def outcome_at_def)
    next
      case T1: (Throttled t1)
      show ?thesis
      proof (cases o2)
        case (Fetched c)
        with R0 T1 run s0 s1 s2 d0 d1 d2 show ?thesis
          by (auto simp: upt3 all3 all2 ex2 events_since_def outcome_at_def)
      next
        case (Throttled t2)
        with R0 T1 run s0 s1 s2 d0 d1 d2 show ?thesis
          by (auto simp: upt3 all3 all2 ex2 events_since_def outcome_at_def)
      next
        case (Raised e2)
        with R0 T1 run s0 s1 s2 d0 d1 d2 show ?thesis
          by (auto simp: upt3 all3 all2 ex2 events_since_def outcome_at_def third_failure_def Let_def split: if_splits)
      qed
    next
      case R1: (Raised e1)
      show ?thesis
      proof (cases o2)
        case (Fetched c)
        with R0 R1 run s0 s1 s2 d0 d1 d2 show ?thesis
          by (auto simp: upt3 all3 all2 ex2 events_since_def outcome_at_def)
      next
        case (Throttled t2)
        with R0 R1 run s0 s1 s2 d0 d1 d2 show ?thesis
          by (auto simp: upt3 all3 all2 ex2 events_since_def outcome_at_def)
      next
        case (Raised e2)
        with R0 R1 run s0 s1 s2 d0 d1 d2 show ?thesis
          by (auto simp: upt3 all3 all2 ex2 events_since_def outcome_at_def third_failure_def Let_def split: if_splits)
      qed
    qed
  qed
qed

text \<open>
  The claim as it was stated fails. Against three 429 replies the loop sends three
  requests and stops: the fourth reply, a success, is never asked for, so the 429s did
  consume the attempts; the image is dropped and no error is recorded. Against two 429
  replies and one 503 an error is recorded after a single failure that is not a 429.
\<close>

theorem throttling_consumes_attempts:
  "(case fetch_image demo_lib ''data'' [] ''u'' [0..<3] (acq0, throttled_thrice) of
      (a', w') \<Rightarrow> image_bytes a' = [] \<and> acq_errors a' = 0 \<and> sent w' = 3)
   \<and> outcome_at demo_lib throttled_thrice 3 = Fetched ''img''
   \<and> (case fetch_image demo_lib ''data'' [] ''u'' [0..<3] (acq0, throttled_then_error) of
      (a', w') \<Rightarrow> image_bytes a' = [] \<and> acq_errors a' = 1 \<and> sent w' = 3)"
  by code_simp

theorem fetch_image_attempt_budget_witness:
  "\<exists>a' w'. fetch_image demo_lib ''data'' [] ''u'' [0..<3] (acq0, throttled_then_ok) = (a', w')
     \<and> image_bytes a' = [''img''] \<and> acq_errors a' = 0 \<and> sent w' = 2
     \<and> Sleep (Fin 2) \<in> set (events_since throttled_then_ok w')"
proof -
  obtain a' w' where run:
    "fetch_image demo_lib ''data'' [] ''u'' [0..<3] (acq0, throttled_then_ok) = (a', w')"
    by (cases "fetch_image demo_lib ''data'' [] ''u'' [0..<3] (acq0, throttled_then_ok)")
  have o0: "outcome_at demo_lib throttled_then_ok 0 = Throttled (Fin 2)" by code_simp
  have o1: "outcome_at demo_lib throttled_then_ok 1 = Fetched ''img''" by code_simp
  have s: "sent throttled_then_ok = 0" "image_bytes acq0 = []" "acq_errors acq0 = 0" by code_simp+
  from fetch_image_attempt_budget [OF run] o0 o1 s
  have "image_bytes a' = [''img''] \<and> acq_errors a' = 0 \<and> sent w' = 2
     \<and> Sleep (Fin 2) \<in> set (events_since throttled_then_ok w')"
    by (auto simp: less_Suc_eq numeral_3_eq_3)
  with run show ?thesis by blast
qed


section \<open>The fallback pass and the error count\<close>

text \<open>
  C3. A job with one chapter, data-saver preferred: the three attempts at the only
  data-saver image fail with 503, which records one error and leaves the pass without an
  image; the fallback pass fetches the regular image at once. \<open>errors_before\<close> is read
  after the data-saver pass, so setting \<open>errors\<close> back to it keeps that pass's error:
  the summary reports one error for a chapter that was packaged from the fallback.
\<close>

theorem fallback_keeps_abandoned_errors:
  "map_option fst (process_job demo_cfg demo_lib 3 3 (demo_job None None) (world_of fallback_replies))
     = Some (Inr \<lparr>chapters_processed = 1, chapters_packaged = 1,
          files_created = [''/library/m1/c1.cbz''], skipped_chapters = 0, skipped_external = 0,
          skipped_no_images = 0, errors = 1\<rparr>)"
  by code_simp

section \<open>The worker and canceled jobs\<close>

text \<open>
  C1. A job is queued and then canceled. Its identifier stays in the queue, and the
  worker, which tests for \<open>aborted\<close> only, marks the job running, runs process\_job on it
  (the trace shows the requests it sent) and leaves it completed.
\<close>

theorem canceled_job_is_executed:
  "fst (cancel_job ''j1'' (add_job ''j1'' (demo_job None None) server0)) = Inr Canceled
   \<and> map_option status (jobs (snd (cancel_job ''j1'' (add_job ''j1'' (demo_job None None) server0))) ''j1'')
       = Some Canceled
   \<and> map_option (\<lambda>(d, s, w). (d, map_option status (jobs s ''j1''), trace w))
       (worker_iteration demo_cfg demo_lib 3 3
          (snd (cancel_job ''j1'' (add_job ''j1'' (demo_job None None) server0)), world_of []))
     = Some (Started ''j1'' (demo_job None None), Some Completed,
         [Acquire RPM, Acquire RPS,
          Get Api ''https://api.mangadex.org/manga/m1'' IncludesCoverArt None,
          Acquire RPM, Acquire RPS,
          Get Api ''https://api.mangadex.org/chapter'' (ChapterQuery ''m1'' ''en'' 500 0) None])"
  by code_simp


section \<open>The client on a 401\<close>

lemma events_since_append [simp]: "trace w' = trace w @ es \<Longrightarrow> events_since w w' = es"
  by (simp add: events_since_def)

lemma events_since_self [simp]: "events_since w w = []"
  by (simp add: events_since_def)







section \<open>Chapter discovery and HTTP errors\<close>

lemma fetch_page_no_http:
  "fetch_page cfg L k mid lang limit offset w = Some (Inl e, w1) \<Longrightarrow> \<exists>t. e = OtherError t"
  by (auto simp: fetch_page_def split: option.splits prod.splits sum.splits exn.splits if_splits)

lemma list_pages_no_http:
  "list_pages cfg L k n mid lang limit offset chs w = Some ((r, out), w')
     \<Longrightarrow> r \<noteq> Some (HTTPStatusError c t)"
proof (induction n arbitrary: limit offset chs w)
  case 0
  then show ?case by simp
next
  case (Suc n)
  show ?case
  proof (cases "fetch_page cfg L k mid lang limit offset w")
    case None
    with Suc.prems show ?thesis by simp
  next
    case (Some x)
    obtain res w1 where x: "x = (res, w1)" by (cases x)
    show ?thesis
    proof (cases res)
      case (Inl e)
      with Some x fetch_page_no_http [of cfg L k mid lang limit offset w e w1]
      obtain t' where "e = OtherError t'" by auto
      with Inl Some x Suc.prems show ?thesis by auto
    next
      case (Inr pg)
      obtain batch tot limit' where pg: "pg = ((batch, tot), limit')" by (cases pg) auto
      from Suc.prems Some x Inr pg Suc.IH [of limit' "offset + length batch" "chs @ batch" w1]
      show ?thesis by (auto split: if_splits)
    qed
  qed
qed

lemma fetch_page_degrade:
  assumes "get_manga_chapters cfg L k mid lang limit offset w = Some (Inl (HTTPStatusError 400 t), w1)"
    and "limit \<noteq> fallback_limit"
  shows "fetch_page cfg L k mid lang limit offset w
       = fetch_page cfg L k mid lang fallback_limit offset w1"
  using assms
  by (auto simp: fetch_page_def split: option.splits prod.splits sum.splits exn.splits)

lemma fetch_page_stop:
  assumes "get_manga_chapters cfg L k mid lang limit offset w = Some (Inl (HTTPStatusError c t), w1)"
    and "c \<noteq> 400 \<or> limit = fallback_limit"
  shows "fetch_page cfg L k mid lang limit offset w = Some (Inr (([], 0), limit), w1)"
  using assms by (auto simp: fetch_page_def)

text \<open>
  C8. No HTTP error leaves the listing loop, whatever state the loop is in, and what the
  loop accumulated is what the listing returns. When a page request is rejected with a
  400 at a page size other than the fallback size, the iteration goes on exactly as the
  same iteration at page size 100 does from the state after the rejection: same offset,
  same accumulated chapters, one further request. Every other HTTP error, and a 400 at
  the fallback size, so also a failure of the retry, ends the loop at once with the
  chapters accumulated so far.
\<close>

theorem discovery_absorbs_http_errors:
  "(\<forall>r out w'. list_pages cfg L k n mid lang limit offset chs w = Some ((r, out), w')
       \<longrightarrow> (\<forall>c t. r \<noteq> Some (HTTPStatusError c t)))
   \<and> (\<forall>r out w'. list_pages cfg L k n mid lang 500 0 [] w = Some ((r, out), w')
       \<longrightarrow> list_chapters cfg L k n mid lang w = Some (out, w'))
   \<and> (\<forall>t w1. get_manga_chapters cfg L k mid lang limit offset w
                 = Some (Inl (HTTPStatusError 400 t), w1) \<and> limit \<noteq> fallback_limit
       \<longrightarrow> list_pages cfg L k (Suc n) mid lang limit offset chs w
           = list_pages cfg L k (Suc n) mid lang fallback_limit offset chs w1)
   \<and> (\<forall>c t w1. get_manga_chapters cfg L k mid lang limit offset w
                 = Some (Inl (HTTPStatusError c t), w1) \<and> (c \<noteq> 400 \<or> limit = fallback_limit)
       \<longrightarrow> list_pages cfg L k (Suc n) mid lang limit offset chs w = Some ((None, chs), w1))"
proof (intro conjI allI impI)
  fix r out w' c t
  assume "list_pages cfg L k n mid lang limit offset chs w = Some ((r, out), w')"
  then show "r \<noteq> Some (HTTPStatusError c t)" by (rule list_pages_no_http)
next
  fix r out w'
  assume "list_pages cfg L k n mid lang 500 0 [] w = Some ((r, out), w')"
  then show "list_chapters cfg L k n mid lang w = Some (out, w')"
    by (simp add: list_chapters_def)
next
  fix t w1
  assume "get_manga_chapters cfg L k mid lang limit offset w
            = Some (Inl (HTTPStatusError 400 t), w1) \<and> limit \<noteq> fallback_limit"
  then have "fetch_page cfg L k mid lang limit offset w
       = fetch_page cfg L k mid lang fallback_limit offset w1"
    by (simp add: fetch_page_degrade)
  then show "list_pages cfg L k (Suc n) mid lang limit offset chs w
           = list_pages cfg L k (Suc n) mid lang fallback_limit offset chs w1"
    by simp
next
  fix c t w1
  assume "get_manga_chapters cfg L k mid lang limit offset w
            = Some (Inl (HTTPStatusError c t), w1) \<and> (c \<noteq> 400 \<or> limit = fallback_limit)"
  then have "fetch_page cfg L k mid lang limit offset w = Some (Inr (([], 0), limit), w1)"
    using fetch_page_stop by blast
  then show "list_pages cfg L k (Suc n) mid lang limit offset chs w = Some ((None, chs), w1)"
    by simp
qed

theorem discovery_absorbs_http_errors_witness:
  "map_option (\<lambda>(chs, w'). (chs, trace w')) (list_chapters demo_cfg demo_lib 3 2 ''m1'' ''en'' page_rejected)
     = Some ([demo_chapter ''c1'' (Some ''1'')],
         [Acquire RPM, Acquire RPS,
          Get Api ''https://api.mangadex.org/chapter'' (ChapterQuery ''m1'' ''en'' 500 0) None,
          Acquire RPM, Acquire RPS,
          Get Api ''https://api.mangadex.org/chapter'' (ChapterQuery ''m1'' ''en'' 100 0) None])
   \<and> list_pages demo_cfg demo_lib 3 (Suc 1) ''m1'' ''en'' 500 0 [] page_rejected
     = list_pages demo_cfg demo_lib 3 (Suc 1) ''m1'' ''en'' fallback_limit 0 []
         (snd (the (get_manga_chapters demo_cfg demo_lib 3 ''m1'' ''en'' 500 0 page_rejected)))"
proof -
  have ev: "map_option (\<lambda>(chs, w'). (chs, trace w'))
       (list_chapters demo_cfg demo_lib 3 2 ''m1'' ''en'' page_rejected)
     = Some ([demo_chapter ''c1'' (Some ''1'')],
         [Acquire RPM, Acquire RPS,
          Get Api ''https://api.mangadex.org/chapter'' (ChapterQuery ''m1'' ''en'' 500 0) None,
          Acquire RPM, Acquire RPS,
          Get Api ''https://api.mangadex.org/chapter'' (ChapterQuery ''m1'' ''en'' 100 0) None])"
    by code_simp
  have g: "map_option fst (get_manga_chapters demo_cfg demo_lib 3 ''m1'' ''en'' 500 0 page_rejected)
      = Some (Inl (HTTPStatusError 400 ''400''))"
    by code_simp
  then have g': "get_manga_chapters demo_cfg demo_lib 3 ''m1'' ''en'' 500 0 page_rejected
      = Some (Inl (HTTPStatusError 400 ''400''),
          snd (the (get_manga_chapters demo_cfg demo_lib 3 ''m1'' ''en'' 500 0 page_rejected)))"
    by (cases "get_manga_chapters demo_cfg demo_lib 3 ''m1'' ''en'' 500 0 page_rejected")
      (auto simp: prod_eq_iff)
  have l: "(500::nat) \<noteq> fallback_limit" by (simp add: fallback_limit_def)
  from discovery_absorbs_http_errors
    [of demo_cfg demo_lib 3 1 "''m1''" "''en''" 500 0 "[]" page_rejected] g' l
  have "list_pages demo_cfg demo_lib 3 (Suc 1) ''m1'' ''en'' 500 0 [] page_rejected
     = list_pages demo_cfg demo_lib 3 (Suc 1) ''m1'' ''en'' fallback_limit 0 []
         (snd (the (get_manga_chapters demo_cfg demo_lib 3 ''m1'' ''en'' 500 0 page_rejected)))"
    by blast
  with ev show ?thesis by simp
qed


section \<open>The archive and its destination\<close>

lemma path_join_last: "b \<noteq> [] \<Longrightarrow> last (path_join a b) = last b"
  by (simp add: path_join_def)

lemma last_final_path: "last (final_path_of cfg L mt mid ch cid) = CHR ''z''"
  by (simp add: final_path_of_def filename_of_def path_join_last Let_def)

lemma last_tmp_path: "last (tmp_path_of cfg cid) = CHR ''p''"
  by (simp add: tmp_path_of_def path_join_last)

lemma tmp_not_final: "tmp_path_of cfg cid \<noteq> final_path_of cfg' L mt mid ch cid'"
proof
  assume "tmp_path_of cfg cid = final_path_of cfg' L mt mid ch cid'"
  then have "last (tmp_path_of cfg cid) = last (final_path_of cfg' L mt mid ch cid')" by simp
  then show False by (simp add: last_final_path last_tmp_path)
qed

lemma cover_not_final: "path_join d ''cover.jpg'' \<noteq> final_path_of cfg L mt mid ch cid"
proof
  assume "path_join d ''cover.jpg'' = final_path_of cfg L mt mid ch cid"
  then have "last (path_join d ''cover.jpg'') = last (final_path_of cfg L mt mid ch cid)" by simp
  then show False by (simp add: last_final_path path_join_last)
qed

lemma series_json_not_final: "path_join d ''series.json'' \<noteq> final_path_of cfg L mt mid ch cid"
proof
  assume "path_join d ''series.json'' = final_path_of cfg L mt mid ch cid"
  then have "last (path_join d ''series.json'') = last (final_path_of cfg L mt mid ch cid)" by simp
  then show False by (simp add: last_final_path path_join_last)
qed

lemma io_step_files: "io_step w = (b, w1) \<Longrightarrow> files w1 = files w"
  by (auto simp: io_step_def)

lemma write_plain_files: "x \<noteq> path \<Longrightarrow> files (write_plain path c w) x = files w x"
  by (auto simp: write_plain_def io_step_def split: prod.splits option.splits)

lemma fetch_cover_files: "x \<noteq> path \<Longrightarrow> files (fetch_cover url path w) x = files w x"
  by (auto simp: fetch_cover_def rps_get_def send_def emit_def write_plain_files
      split: prod.splits reply.splits sum.splits)

lemma download_series_metadata_files:
  assumes "x \<noteq> path_join d ''cover.jpg''" and "x \<noteq> path_join d ''series.json''"
  shows "files (download_series_metadata L d m mid w) x = files w x"
  using assms
  by (simp add: download_series_metadata_def Let_def write_plain_files fetch_cover_files)

lemma write_entries_files:
  "write_entries tmp es w = (res, w') \<Longrightarrow>
     (\<forall>x. x \<noteq> tmp \<longrightarrow> files w' x = files w x)
     \<and> (\<forall>es0 b. res = Inr () \<and> files w tmp = Some (Archive es0 b)
           \<longrightarrow> files w' tmp = Some (Archive (es0 @ es) b))"
proof (induction es arbitrary: w)
  case Nil
  then show ?case by auto
next
  case (Cons e es)
  obtain b w1 where io: "io_step w = (b, w1)" by (cases "io_step w")
  show ?case
  proof (cases b)
    case (Some msg)
    with Cons.prems io show ?thesis by (auto simp: io_step_files)
  next
    case None
    with Cons.prems io have run: "write_entries tmp es (append_entry tmp e w1) = (res, w')"
      by simp
    have f1: "files w1 = files w" using io by (rule io_step_files)
    from Cons.IH [OF run] f1 show ?thesis
      by (auto simp: append_entry_def)
  qed
qed

lemma close_archive_files: "x \<noteq> tmp \<Longrightarrow> files (close_archive tmp w) x = files w x"
  by (simp add: close_archive_def)

lemma build_archive_files:
  assumes "build_archive tmp es w = (res, w')"
  shows "(\<forall>x. x \<noteq> tmp \<longrightarrow> files w' x = files w x)
     \<and> (res = Inr () \<longrightarrow> files w' tmp = Some (Archive es True))"
proof -
  obtain b w1 where io: "io_step w = (b, w1)" by (cases "io_step w")
  have f1: "files w1 = files w" using io by (rule io_step_files)
  show ?thesis
  proof (cases b)
    case (Some msg)
    with assms io f1 show ?thesis by (auto simp: build_archive_def)
  next
    case None
    let ?w2 = "w1\<lparr>files := (files w1)(tmp \<mapsto> Archive [] False)\<rparr>"
    obtain r3 w3 where we: "write_entries tmp es ?w2 = (r3, w3)"
      by (cases "write_entries tmp es ?w2")
    note f3 = write_entries_files [OF we, THEN conjunct1]
    obtain b4 w4 where io4: "io_step w3 = (b4, w4)" by (cases "io_step w3")
    have f4: "files w4 = files w3" using io4 by (rule io_step_files)
    show ?thesis
    proof (cases b4)
      case (Some msg)
      with assms io None we io4 f3 f1 f4 show ?thesis
        by (auto simp: build_archive_def)
    next
      case closed: None
      from assms io None we io4 closed
      have res: "res = r3" and w': "w' = close_archive tmp w4"
        by (auto simp: build_archive_def)
      have outside: "\<forall>x. x \<noteq> tmp \<longrightarrow> files w' x = files w x"
        using w' f3 f1 f4 by (simp add: close_archive_files)
      have inside: "files w' tmp = Some (Archive es True)" if "res = Inr ()"
      proof -
        from that res have "r3 = Inr ()" by simp
        with write_entries_files [OF we, THEN conjunct2, rule_format, of "[]" False]
        have "files w3 tmp = Some (Archive es False)" by simp
        with w' f4 show ?thesis by (simp add: close_archive_def)
      qed
      from outside inside show ?thesis by blast
    qed
  qed
qed

text \<open>An entry write that raises makes the archive block raise, whatever the close does.\<close>

lemma entry_write_failure_fails_block:
  assumes "io_step w = (None, w1)"
    and "write_entries tmp es (w1\<lparr>files := (files w1)(tmp \<mapsto> Archive [] False)\<rparr>) = (Inl e, w2)"
  shows "\<exists>e' w'. build_archive tmp es w = (Inl e', w')"
  using assms by (auto simp: build_archive_def split: prod.splits option.splits)

lemma archive_chapter_build_fails:
  "build_archive tmp es w = (Inl e, w1) \<Longrightarrow> archive_chapter tmp final es w = (Inl e, w1)"
  by (simp add: archive_chapter_def)

lemma archive_chapter_ok:
  assumes "archive_chapter tmp final es w = (Inr u, w')" and "tmp \<noteq> final"
  shows "files w' final = Some (Archive es True)"
proof -
  obtain r1 w1 where ba: "build_archive tmp es w = (r1, w1)" by (cases "build_archive tmp es w")
  note f1 = build_archive_files [OF ba]
  obtain b w2 where io: "io_step w1 = (b, w2)" by (cases "io_step w1")
  have f2: "files w2 = files w1" using io by (rule io_step_files)
  from assms ba io f1 f2 show ?thesis
    by (cases r1; cases b) (auto simp: archive_chapter_def move_def split: option.splits)
qed

lemma prepare_chapter_files:
  assumes "prepare_chapter cfg L mt md mid p w = (r, w2)"
  shows "files w2 (final_path_of cfg L mt mid ch cid) = files w (final_path_of cfg L mt mid ch cid)"
    and "r = Inr p1 \<Longrightarrow> created_files p1 = created_files p"
proof -
  obtain b w1 where io: "io_step w = (b, w1)" by (cases "io_step w")
  have f1: "files w1 = files w" using io by (rule io_step_files)
  from assms io f1
  show "files w2 (final_path_of cfg L mt mid ch cid) = files w (final_path_of cfg L mt mid ch cid)"
    by (cases b)
      (auto simp: prepare_chapter_def sleep_def emit_def download_series_metadata_files
        cover_not_final [symmetric] series_json_not_final [symmetric]
        split: option.splits if_splits)
  from assms io show "r = Inr p1 \<Longrightarrow> created_files p1 = created_files p"
    by (cases b) (auto simp: prepare_chapter_def split: option.splits if_splits)
qed

text \<open>
  C5 (as amended). The archive of a chapter is built at the temporary path and reaches
  the final path only whole. When the archive block raises (opening the archive, an
  entry write or closing it), packaging raises that exception at once, the move is not
  run, and the final path holds what it held before the packaging began: no file if
  there was none, the file of an earlier run if there was one. When packaging returns,
  the final path holds the closed archive with every entry, the metadata entry first
  when there is one, and that path is the one appended to the produced-file list.
  Nothing is said of a move that raises.
\<close>

theorem archive_block_failure_leaves_destination:
  "(\<forall>p1 w2 e w3.
       prepare_chapter cfg L manga_title manga_data_full mid p w = (Inr p1, w2)
       \<and> build_archive (tmp_path_of cfg cid)
           (chapter_entries L manga_data_full ch cid images) w2 = (Inl e, w3)
     \<longrightarrow> package_chapter cfg L manga_title manga_data_full mid ch cid images p w = (Inl e, w3)
         \<and> files w3 (final_path_of cfg L manga_title mid ch cid)
             = files w (final_path_of cfg L manga_title mid ch cid))
   \<and> (\<forall>p' w'.
       package_chapter cfg L manga_title manga_data_full mid ch cid images p w = (Inr p', w')
     \<longrightarrow> files w' (final_path_of cfg L manga_title mid ch cid)
           = Some (Archive (chapter_entries L manga_data_full ch cid images) True)
         \<and> created_files p' = created_files p @ [final_path_of cfg L manga_title mid ch cid])"
proof (intro conjI allI impI)
  fix p1 w2 e w3
  assume h: "prepare_chapter cfg L manga_title manga_data_full mid p w = (Inr p1, w2)
       \<and> build_archive (tmp_path_of cfg cid)
           (chapter_entries L manga_data_full ch cid images) w2 = (Inl e, w3)"
  then have prep: "prepare_chapter cfg L manga_title manga_data_full mid p w = (Inr p1, w2)"
    and ba: "build_archive (tmp_path_of cfg cid)
           (chapter_entries L manga_data_full ch cid images) w2 = (Inl e, w3)"
    by simp_all
  from prep archive_chapter_build_fails [OF ba]
  show "package_chapter cfg L manga_title manga_data_full mid ch cid images p w = (Inl e, w3)"
    by (simp add: package_chapter_def)
  have "files w3 (final_path_of cfg L manga_title mid ch cid)
      = files w2 (final_path_of cfg L manga_title mid ch cid)"
    using build_archive_files [OF ba] tmp_not_final [of cfg cid cfg L manga_title mid ch cid]
    by (simp add: eq_commute)
  also have "\<dots> = files w (final_path_of cfg L manga_title mid ch cid)"
    using prep by (rule prepare_chapter_files)
  finally show "files w3 (final_path_of cfg L manga_title mid ch cid)
      = files w (final_path_of cfg L manga_title mid ch cid)" .
next
  fix p' w'
  assume run: "package_chapter cfg L manga_title manga_data_full mid ch cid images p w = (Inr p', w')"
  obtain r1 w2 where prep: "prepare_chapter cfg L manga_title manga_data_full mid p w = (r1, w2)"
    by (cases "prepare_chapter cfg L manga_title manga_data_full mid p w")
  obtain r3 w3 where ac: "archive_chapter (tmp_path_of cfg cid)
      (final_path_of cfg L manga_title mid ch cid)
      (chapter_entries L manga_data_full ch cid images) w2 = (r3, w3)"
    by (cases "archive_chapter (tmp_path_of cfg cid)
      (final_path_of cfg L manga_title mid ch cid)
      (chapter_entries L manga_data_full ch cid images) w2")
  from run prep ac obtain p1 where r1: "r1 = Inr p1" and r3: "r3 = Inr ()" and w': "w' = w3"
    and p': "p' = p1\<lparr>created_files :=
                 created_files p1 @ [final_path_of cfg L manga_title mid ch cid]\<rparr>"
    by (cases r1; cases r3) (auto simp: package_chapter_def)
  from ac r3 have "files w3 (final_path_of cfg L manga_title mid ch cid)
      = Some (Archive (chapter_entries L manga_data_full ch cid images) True)"
    by (simp add: archive_chapter_ok tmp_not_final)
  with w' show "files w' (final_path_of cfg L manga_title mid ch cid)
      = Some (Archive (chapter_entries L manga_data_full ch cid images) True)"
    by simp
  from prepare_chapter_files(2) [OF prep r1] p'
  show "created_files p' = created_files p @ [final_path_of cfg L manga_title mid ch cid]"
    by simp
qed

text \<open>
  The claim as it was stated fails where an earlier run left a file at the final path:
  the second entry write raises, the closed archive at the temporary path holds the
  first entry alone, packaging raises, and the file of the earlier run is still at the
  final path.
\<close>

theorem stale_file_survives_failed_write:
  "(case package_chapter demo_cfg demo_lib None None ''m1'' (demo_chapter ''c1'' (Some ''1''))
           ''c1'' [''A'', ''B''] progress0 stale_destination of
      (res, w') \<Rightarrow>
        res = Inl (OtherError ''No space left on device'')
        \<and> files w' ''/library/m1/c1.cbz'' = Some (Plain ''earlier'')
        \<and> files w' ''/app/data/c1.cbz.tmp'' = Some (Archive [(''001.jpg'', ''A'')] True))
   \<and> final_path_of demo_cfg demo_lib None ''m1'' (demo_chapter ''c1'' (Some ''1'')) ''c1''
       = ''/library/m1/c1.cbz''
   \<and> tmp_path_of demo_cfg ''c1'' = ''/app/data/c1.cbz.tmp''"
  by code_simp

text \<open>
  The move itself is outside the statement: where it falls back to a copy and the copy
  breaks off, the archive block had succeeded, packaging raises, and the final path
  holds the part that was copied, while the whole archive is still at the temporary
  path.
\<close>

lemma failed_move_can_leave_truncated_archive:
  "(case package_chapter demo_cfg demo_lib None None ''m1'' (demo_chapter ''c1'' (Some ''1''))
           ''c1'' [''A'', ''B''] progress0 move_breaks_off of
      (res, w') \<Rightarrow>
        res = Inl (OtherError ''No space left on device'')
        \<and> files w' ''/library/m1/c1.cbz'' = Some (Archive [(''001.jpg'', ''A'')] False)
        \<and> files w' ''/app/data/c1.cbz.tmp''
            = Some (Archive [(''001.jpg'', ''A''), (''002.jpg'', ''B'')] True))"
  by code_simp

theorem archive_block_failure_leaves_destination_witness:
  "package_chapter demo_cfg demo_lib None None ''m1'' (demo_chapter ''c1'' (Some ''1''))
       ''c1'' [''A'', ''B''] progress0 disk_fails_midway
     = (Inl (OtherError ''No space left on device''),
        snd (build_archive (tmp_path_of demo_cfg ''c1'')
               (chapter_entries demo_lib None (demo_chapter ''c1'' (Some ''1'')) ''c1'' [''A'', ''B''])
               (snd (prepare_chapter demo_cfg demo_lib None None ''m1'' progress0
                       disk_fails_midway))))
   \<and> files (snd (package_chapter demo_cfg demo_lib None None ''m1''
                    (demo_chapter ''c1'' (Some ''1'')) ''c1'' [''A'', ''B''] progress0
                    disk_fails_midway)) ''/library/m1/c1.cbz'' = None
   \<and> (case package_chapter demo_cfg demo_lib None None ''m1'' (demo_chapter ''c1'' (Some ''1''))
             ''c1'' [''A'', ''B''] progress0 (world_of []) of
        (res, w') \<Rightarrow>
          map_sum id created_files res = Inr [''/library/m1/c1.cbz'']
          \<and> files w' ''/library/m1/c1.cbz''
              = Some (Archive [(''001.jpg'', ''A''), (''002.jpg'', ''B'')] True)
          \<and> files w' ''/app/data/c1.cbz.tmp'' = None)"
proof -
  let ?ch = "demo_chapter ''c1'' (Some ''1'')"
  let ?prep = "prepare_chapter demo_cfg demo_lib None None ''m1'' progress0 disk_fails_midway"
  let ?build = "build_archive (tmp_path_of demo_cfg ''c1'')
               (chapter_entries demo_lib None ?ch ''c1'' [''A'', ''B'']) (snd ?prep)"
  let ?run = "package_chapter demo_cfg demo_lib None None ''m1'' ?ch ''c1'' [''A'', ''B'']
                progress0 disk_fails_midway"
  have p: "fst ?prep = Inr progress0" by code_simp
  have b: "fst ?build = Inl (OtherError ''No space left on device'')" by code_simp
  have fp: "final_path_of demo_cfg demo_lib None ''m1'' ?ch ''c1'' = ''/library/m1/c1.cbz''"
    by code_simp
  have before: "files disk_fails_midway ''/library/m1/c1.cbz'' = None" by code_simp
  have ok: "(case package_chapter demo_cfg demo_lib None None ''m1'' ?ch ''c1'' [''A'', ''B'']
                 progress0 (world_of []) of
        (res, w') \<Rightarrow>
          map_sum id created_files res = Inr [''/library/m1/c1.cbz'']
          \<and> files w' ''/library/m1/c1.cbz''
              = Some (Archive [(''001.jpg'', ''A''), (''002.jpg'', ''B'')] True)
          \<and> files w' ''/app/data/c1.cbz.tmp'' = None)"
    by code_simp
  have p': "?prep = (Inr progress0, snd ?prep)" using p by (simp add: prod_eq_iff)
  have b': "?build = (Inl (OtherError ''No space left on device''), snd ?build)"
    using b by (simp add: prod_eq_iff)
  from archive_block_failure_leaves_destination
    [of demo_cfg demo_lib None None "''m1''" progress0 disk_fails_midway "''c1''" ?ch
       "[''A'', ''B'']"] p' b'
  have "?run = (Inl (OtherError ''No space left on device''), snd ?build)
      \<and> files (snd ?build) (final_path_of demo_cfg demo_lib None ''m1'' ?ch ''c1'')
          = files disk_fails_midway (final_path_of demo_cfg demo_lib None ''m1'' ?ch ''c1'')"
    by blast
  with fp before ok show ?thesis by simp
qed

section \<open>The counters of the result summary\<close>

lemma package_chapter_counts:
  assumes "package_chapter cfg L mt md mid ch cid images p w = (Inr p', w')"
  shows "counted_once p p'"
  using assms
  by (auto simp: package_chapter_def prepare_chapter_def counted_once_def
      split: prod.splits option.splits if_splits sum.splits)

lemma process_chapter_counts:
  assumes "process_chapter cfg L k mt md mid ch p w = Some (Inr p', w')"
  shows "counted_once p p'"
proof (cases "\<not> truthy (chapter_id ch) \<or> truthy (externalUrl ch)")
  case True
  with assms show ?thesis
    by (auto simp: process_chapter_def counted_once_def skip_chapter_def skip_external_def
        split: if_splits)
next
  case False
  show ?thesis
  proof (cases "get_at_home cfg L k (or_else (chapter_id ch) []) w")
    case None
    with assms False show ?thesis by (simp add: process_chapter_def)
  next
    case (Some x)
    obtain r w1 where x: "x = (r, w1)" by (cases x)
    show ?thesis
    proof (cases r)
      case (Inl e)
      with assms False Some x show ?thesis
        by (auto simp: process_chapter_def counted_once_def skip_chapter_def skip_error_def)
    next
      case (Inr b)
      obtain base chapter_hash data_regular data_saver
        where ah: "at_home_fields b = (base, chapter_hash, data_regular, data_saver)"
        by (cases "at_home_fields b") auto
      obtain data data_kind
        where ct: "choose_tier (use_datasaver cfg) data_regular data_saver = (data, data_kind)"
        by (cases "choose_tier (use_datasaver cfg) data_regular data_saver")
      show ?thesis
      proof (cases "truthy base \<and> truthy chapter_hash \<and> data \<noteq> []")
        case no: False
        with assms False Some x Inr ah ct show ?thesis
          by (auto simp: process_chapter_def counted_once_def skip_chapter_def skip_no_images_def)
      next
        case yes: True
        obtain images errs w2
          where ai: "acquire_images L (or_else base []) (or_else chapter_hash [])
                       data_regular data data_kind (n_errors p) w1 = ((images, errs), w2)"
          by (cases "acquire_images L (or_else base []) (or_else chapter_hash [])
                       data_regular data data_kind (n_errors p) w1") auto
        show ?thesis
        proof (cases "images = []")
          case True
          with assms False Some x Inr ah ct yes ai show ?thesis
            by (auto simp: process_chapter_def counted_once_def skip_chapter_def
                skip_no_images_def)
        next
          case ne: False
          with assms False Some x Inr ah ct yes ai
          have "package_chapter cfg L mt md mid ch (or_else (chapter_id ch) []) images
                  (p\<lparr>n_errors := errs\<rparr>) w2 = (Inr p', w')"
            by (auto simp: process_chapter_def)
          from package_chapter_counts [OF this] show ?thesis
            by (simp add: counted_once_def)
        qed
      qed
    qed
  qed
qed

lemma chapters_loop_counts:
  "chapters_loop cfg L k mt md mid chs p w = Some (Inr p', w') \<Longrightarrow>
     length (created_files p') + n_skipped_chapters p'
       = length (created_files p) + n_skipped_chapters p + length chs
     \<and> n_skipped_external p' + n_skipped_no_images p' + n_skipped_chapters p
       \<le> n_skipped_external p + n_skipped_no_images p + n_skipped_chapters p'"
proof (induction chs arbitrary: p w)
  case Nil
  then show ?case by simp
next
  case (Cons ch chs)
  show ?case
  proof (cases "process_chapter cfg L k mt md mid ch p w")
    case None
    with Cons.prems show ?thesis by simp
  next
    case (Some x)
    obtain r w1 where x: "x = (r, w1)" by (cases x)
    show ?thesis
    proof (cases r)
      case (Inl e)
      with Cons.prems Some x show ?thesis by simp
    next
      case (Inr p1)
      with Cons.prems Some x
      have rest: "chapters_loop cfg L k mt md mid chs p1 w1 = Some (Inr p', w')" by simp
      from Some x Inr have "counted_once p p1"
        using process_chapter_counts by blast
      with Cons.IH [OF rest] show ?thesis
        by (auto simp: counted_once_def)
    qed
  qed
qed

text \<open>
  C10. When process\_job returns its summary, every chapter retained by the filter was
  counted exactly once, as packaged or as skipped: \<open>chapters_processed\<close> is the sum of
  \<open>chapters_packaged\<close> and \<open>skipped_chapters\<close>; the two sub-reasons together never exceed
  \<open>skipped_chapters\<close>; and \<open>chapters_packaged\<close> is the length of the produced-file list.
\<close>

theorem summary_counts_each_chapter_once:
  assumes "process_job cfg L k n job w = Some (Inr s, w')"
  shows "chapters_processed s = chapters_packaged s + skipped_chapters s
       \<and> skipped_external s + skipped_no_images s \<le> skipped_chapters s
       \<and> chapters_packaged s = length (files_created s)"
proof -
  from assms obtain r w1 chs w2 p where
    loop: "chapters_loop cfg L k (manga_title_of L (manga_data_of r)) (manga_data_of r)
             (manga_id job) (select_chapters L job chs) progress0 w2 = Some (Inr p, w')"
    and s: "s = summary_of (select_chapters L job chs) p"
    by (auto simp: process_job_def split: option.splits prod.splits sum.splits)
  from chapters_loop_counts [OF loop] s show ?thesis
    by (simp add: summary_of_def progress0_def)
qed

theorem summary_counts_each_chapter_once_witness:
  "map_option fst (process_job demo_cfg demo_lib 3 3 (demo_job None None) (world_of mixed_replies))
     = Some (Inr \<lparr>chapters_processed = 3, chapters_packaged = 1,
          files_created = [''/library/m1/c1.cbz''], skipped_chapters = 2, skipped_external = 1,
          skipped_no_images = 0, errors = 0\<rparr>)
   \<and> (\<exists>s w'. process_job demo_cfg demo_lib 3 3 (demo_job None None) (world_of mixed_replies)
                = Some (Inr s, w')
        \<and> chapters_processed s = chapters_packaged s + skipped_chapters s
        \<and> skipped_external s + skipped_no_images s \<le> skipped_chapters s
        \<and> chapters_packaged s = length (files_created s))"
proof -
  let ?run = "process_job demo_cfg demo_lib 3 3 (demo_job None None) (world_of mixed_replies)"
  let ?s = "\<lparr>chapters_processed = 3, chapters_packaged = 1,
          files_created = [''/library/m1/c1.cbz''], skipped_chapters = 2, skipped_external = 1,
          skipped_no_images = 0, errors = 0\<rparr>"
  have ev: "map_option fst ?run = Some (Inr ?s)"
    by code_simp
  then obtain w' where run: "?run = Some (Inr ?s, w')"
    by (cases ?run) (auto simp: prod_eq_iff)
  from summary_counts_each_chapter_once [OF run] run
  have "\<exists>s w'. ?run = Some (Inr s, w')
        \<and> chapters_processed s = chapters_packaged s + skipped_chapters s
        \<and> skipped_external s + skipped_no_images s \<le> skipped_chapters s
        \<and> chapters_packaged s = length (files_created s)"
    by blast
  with ev show ?thesis by simp
qed


section \<open>Requests and rate-limit windows\<close>

lemma permits_append:
  "permits need held (xs @ ys)
     = (case permits need held xs of None \<Rightarrow> None | Some h \<Rightarrow> permits need h ys)"
proof (induction xs arbitrary: held)
  case Nil
  then show ?case by simp
next
  case (Cons e xs)
  then show ?case by (cases e) simp_all
qed

lemma paced_same: "trace w' = trace w \<Longrightarrow> paced w w'"
  by (simp add: paced_def)

lemma paced_refl [simp]: "paced w w"
  by (simp add: paced_def)

lemma paced_trans: "paced w w1 \<Longrightarrow> paced w1 w2 \<Longrightarrow> paced w w2"
  by (auto simp: paced_def permits_append)

lemma paced_sleep: "paced w (sleep d w)"
  by (simp add: paced_def sleep_fields)

lemma paced_post: "paced w (emit (Post g) w)"
  by (simp add: paced_def emit_fields)

lemma send_trace: "send w = (rep, w') \<Longrightarrow> trace w' = trace w"
  by (auto simp: send_def)

lemma paced_api_get: "api_get url q w = (rep, w') \<Longrightarrow> paced w w'"
  by (auto simp: api_get_def send_def paced_def windows_of_def insert_commute)

lemma paced_rps_get:
  "who \<noteq> Api \<Longrightarrow> rps_get who url auth w = (rep, w') \<Longrightarrow> paced w w'"
  by (cases who) (auto simp: rps_get_def send_def paced_def windows_of_def)

lemma set_bearer_trace [simp]: "trace (set_bearer w) = trace w"
  by (simp add: set_bearer_def split: option.splits)

lemma paced_ensure_auth: "ensure_auth cfg w = (r, w') \<Longrightarrow> paced w w'"
  by (auto simp: ensure_auth_def send_def paced_def
      split: if_splits prod.splits reply.splits sum.splits option.splits)

lemma paced_refresh_auth: "refresh_auth cfg w = (r, w') \<Longrightarrow> paced w w'"
  by (auto simp: refresh_auth_def send_def paced_def Let_def
      split: if_splits prod.splits reply.splits sum.splits option.splits)

lemma paced_limited_get:
  "limited_get cfg L k url q w = Some (r, w') \<Longrightarrow> paced w w'"
proof (induction k arbitrary: w)
  case 0
  then show ?case by simp
next
  case (Suc k)
  obtain ra w1 where ea: "ensure_auth cfg w = (ra, w1)" by (cases "ensure_auth cfg w")
  have p1: "paced w w1" using ea by (rule paced_ensure_auth)
  show ?case
  proof (cases ra)
    case (Inl e)
    with Suc.prems ea p1 show ?thesis by auto
  next
    case (Inr u)
    obtain rep w2 where ag: "api_get url q w1 = (rep, w2)" by (cases "api_get url q w1")
    have p2: "paced w w2" using p1 paced_api_get [OF ag] by (rule paced_trans)
    show ?thesis
    proof (cases rep)
      case (Transport t)
      with Suc.prems ea Inr ag p2 show ?thesis by auto
    next
      case (Resp r0)
      consider (throttled) "status_code r0 = 429"
        | (server) "status_code r0 \<noteq> 429" "500 \<le> status_code r0 \<and> status_code r0 < 600"
        | (unauth) "status_code r0 = 401"
        | (other) "status_code r0 \<noteq> 429" "\<not> (500 \<le> status_code r0 \<and> status_code r0 < 600)"
            "status_code r0 \<noteq> 401"
        by fastforce
      then show ?thesis
      proof cases
        case throttled
        show ?thesis
        proof (cases "retry_delay L r0")
          case bad: (Inl e0)
          with Suc.prems ea Inr ag Resp throttled p2 show ?thesis by auto
        next
          case delay: (Inr d)
          with Suc.prems ea Inr ag Resp throttled
          have "limited_get cfg L k url q (sleep d w2) = Some (r, w')" by simp
          then have "paced (sleep d w2) w'" by (rule Suc.IH)
          with p2 paced_sleep [of w2 d] show ?thesis by (blast intro: paced_trans)
        qed
      next
        case server
        with Suc.prems ea Inr ag Resp
        have "limited_get cfg L k url q (sleep (Fin 1) w2) = Some (r, w')" by simp
        then have "paced (sleep (Fin 1) w2) w'" by (rule Suc.IH)
        with p2 paced_sleep [of w2 "Fin 1"] show ?thesis by (blast intro: paced_trans)
      next
        case unauth
        obtain rr w3 where rf: "refresh_auth cfg w2 = (rr, w3)" by (cases "refresh_auth cfg w2")
        have p3: "paced w w3" using p2 paced_refresh_auth [OF rf] by (rule paced_trans)
        show ?thesis
        proof (cases rr)
          case (Inl e)
          with Suc.prems ea Inr ag Resp unauth rf p3 show ?thesis by auto
        next
          case rb: (Inr b)
          show ?thesis
          proof (cases b)
            case False
            with Suc.prems ea Inr ag Resp unauth rf rb p3 show ?thesis by auto
          next
            case True
            obtain rep' w4 where ag2: "api_get url q w3 = (rep', w4)"
              by (cases "api_get url q w3")
            have p4: "paced w w4" using p3 paced_api_get [OF ag2] by (rule paced_trans)
            from True Suc.prems ea Inr ag Resp unauth rf rb ag2 p4 show ?thesis
              by (cases rep') auto
          qed
        qed
      next
        case other
        with Suc.prems ea Inr ag Resp p2 show ?thesis by auto
      qed
    qed
  qed
qed

lemma paced_decoded: "decoded (limited_get cfg L k url q w) = Some (r, w') \<Longrightarrow> paced w w'"
  by (auto simp: decoded_def split: option.splits prod.splits sum.splits body.splits
      dest: paced_limited_get)

lemma paced_get_manga: "get_manga cfg L k mid w = Some (r, w') \<Longrightarrow> paced w w'"
  unfolding get_manga_def by (rule paced_decoded)

lemma paced_get_manga_chapters:
  "get_manga_chapters cfg L k mid lang limit offset w = Some (r, w') \<Longrightarrow> paced w w'"
  unfolding get_manga_chapters_def by (rule paced_decoded)

lemma paced_get_at_home: "get_at_home cfg L k cid w = Some (r, w') \<Longrightarrow> paced w w'"
  unfolding get_at_home_def by (rule paced_decoded)

lemma paced_fetch_page:
  "fetch_page cfg L k mid lang limit offset w = Some (r, w') \<Longrightarrow> paced w w'"
  by (auto simp: fetch_page_def split: option.splits prod.splits sum.splits exn.splits if_splits
      dest: paced_get_manga_chapters intro: paced_trans)

lemma paced_list_pages:
  "list_pages cfg L k n mid lang limit offset chs w = Some (r, w') \<Longrightarrow> paced w w'"
proof (induction n arbitrary: limit offset chs w)
  case 0
  then show ?case by simp
next
  case (Suc n)
  show ?case
  proof (cases "fetch_page cfg L k mid lang limit offset w")
    case None
    with Suc.prems show ?thesis by simp
  next
    case (Some x)
    obtain res w1 where x: "x = (res, w1)" by (cases x)
    have p1: "paced w w1" using Some x paced_fetch_page by blast
    show ?thesis
    proof (cases res)
      case (Inl e)
      with Suc.prems Some x p1 show ?thesis by auto
    next
      case (Inr pg)
      obtain batch tot limit' where pg: "pg = ((batch, tot), limit')" by (cases pg) auto
      from Suc.prems Some x Inr pg p1
        Suc.IH [of limit' "offset + length batch" "chs @ batch" w1]
      show ?thesis by (auto split: if_splits intro: paced_trans)
    qed
  qed
qed

lemma paced_list_chapters:
  "list_chapters cfg L k n mid lang w = Some (chs, w') \<Longrightarrow> paced w w'"
  by (auto simp: list_chapters_def split: option.splits prod.splits dest: paced_list_pages)

lemma paced_attempt_once: "attempt_once L url w = (out, w') \<Longrightarrow> paced w w'"
proof -
  assume run: "attempt_once L url w = (out, w')"
  obtain rep w1 where g: "rps_get ImageFetch url (authorization w) w = (rep, w1)"
    by (cases "rps_get ImageFetch url (authorization w) w")
  have p1: "paced w w1" using g by (auto intro: paced_rps_get)
  from run g have "w' = w1 \<or> (\<exists>d. w' = sleep d w1)"
    by (auto simp: attempt_once_def split: outcome.splits)
  with p1 show ?thesis by (auto intro: paced_trans paced_sleep)
qed

lemma paced_fetch_image:
  "fetch_image L data_kind data_regular url atts (a, w) = (a', w') \<Longrightarrow> paced w w'"
proof (induction atts arbitrary: a w)
  case Nil
  then show ?case by simp
next
  case (Cons attempt rest)
  obtain out w1 where ao: "attempt_once L url w = (out, w1)" by (cases "attempt_once L url w")
  have p1: "paced w w1" using ao by (rule paced_attempt_once)
  have p1s: "paced w (sleep (Fin 1) w1)" using p1 paced_sleep by (rule paced_trans)
  show ?case
  proof (cases out)
    case (Fetched c)
    with Cons.prems ao p1 show ?thesis by auto
  next
    case (Throttled d)
    with Cons.prems ao have "fetch_image L data_kind data_regular url rest (a, w1) = (a', w')"
      by simp
    from Cons.IH [OF this] p1 show ?thesis by (rule paced_trans [rotated])
  next
    case (Raised e)
    with Cons.prems ao
    consider "w' = w1"
      | a1 where "fetch_image L data_kind data_regular url rest (a1, w1) = (a', w')"
      | "fetch_image L data_kind data_regular url rest (a, sleep (Fin 1) w1) = (a', w')"
      by (auto simp: Let_def split: if_splits)
    then show ?thesis
    proof cases
      case 1
      with p1 show ?thesis by simp
    next
      case 2
      from Cons.IH [OF this] p1 show ?thesis by (rule paced_trans [rotated])
    next
      case 3
      from Cons.IH [OF this] p1s show ?thesis by (rule paced_trans [rotated])
    qed
  qed
qed

lemma paced_fetch_pass:
  "fetch_pass L base data_kind chapter_hash data_regular imgs (a, w) = (a', w') \<Longrightarrow> paced w w'"
proof (induction imgs arbitrary: a w)
  case Nil
  then show ?case by simp
next
  case (Cons img rest)
  obtain a1 w1 where fi: "fetch_image L data_kind data_regular
      (image_url base data_kind chapter_hash img) [0..<3] (a, w) = (a1, w1)"
    by (cases "fetch_image L data_kind data_regular
      (image_url base data_kind chapter_hash img) [0..<3] (a, w)")
  have p1: "paced w w1" using fi by (rule paced_fetch_image)
  from Cons.prems fi
  consider "w' = w1"
    | "fetch_pass L base data_kind chapter_hash data_regular rest (a1, w1) = (a', w')"
    by (auto simp: Let_def split: if_splits)
  then show ?case
  proof cases
    case 1
    with p1 show ?thesis by simp
  next
    case 2
    from Cons.IH [OF this] p1 show ?thesis by (rule paced_trans [rotated])
  qed
qed

lemma paced_fetch_image_regular:
  "fetch_image_regular L url atts (a, w) = (a', w') \<Longrightarrow> paced w w'"
proof (induction atts arbitrary: a w)
  case Nil
  then show ?case by simp
next
  case (Cons attempt rest)
  obtain out w1 where ao: "attempt_once L url w = (out, w1)" by (cases "attempt_once L url w")
  have p1: "paced w w1" using ao by (rule paced_attempt_once)
  have p1s: "paced w (sleep (Fin 1) w1)" using p1 paced_sleep by (rule paced_trans)
  show ?case
  proof (cases out)
    case (Fetched c)
    with Cons.prems ao p1 show ?thesis by auto
  next
    case (Throttled d)
    with Cons.prems ao have "fetch_image_regular L url rest (a, w1) = (a', w')" by simp
    from Cons.IH [OF this] p1 show ?thesis by (rule paced_trans [rotated])
  next
    case (Raised e)
    with Cons.prems ao
    consider a1 where "fetch_image_regular L url rest (a1, w1) = (a', w')"
      | "fetch_image_regular L url rest (a, sleep (Fin 1) w1) = (a', w')"
      by (auto split: if_splits)
    then show ?thesis
    proof cases
      case 1
      from Cons.IH [OF this] p1 show ?thesis by (rule paced_trans [rotated])
    next
      case 2
      from Cons.IH [OF this] p1s show ?thesis by (rule paced_trans [rotated])
    qed
  qed
qed

lemma paced_fetch_pass_regular:
  "fetch_pass_regular L base chapter_hash imgs (a, w) = (a', w') \<Longrightarrow> paced w w'"
proof (induction imgs arbitrary: a w)
  case Nil
  then show ?case by simp
next
  case (Cons img rest)
  obtain a1 w1 where fi: "fetch_image_regular L (image_url base ''data'' chapter_hash img)
      [0..<3] (a, w) = (a1, w1)"
    by (cases "fetch_image_regular L (image_url base ''data'' chapter_hash img) [0..<3] (a, w)")
  have p1: "paced w w1" using fi by (rule paced_fetch_image_regular)
  from Cons.prems fi
  have "fetch_pass_regular L base chapter_hash rest (a1, w1) = (a', w')" by simp
  from Cons.IH [OF this] p1 show ?case by (rule paced_trans [rotated])
qed

lemma paced_acquire_images:
  assumes "acquire_images L base chapter_hash data_regular data data_kind errs w = (r, w')"
  shows "paced w w'"
proof -
  obtain a w1 where fp: "fetch_pass L base data_kind chapter_hash data_regular data
      (\<lparr>image_bytes = [], acq_errors = errs, consecutive_400s = 0\<rparr>, w) = (a, w1)"
    by (cases "fetch_pass L base data_kind chapter_hash data_regular data
      (\<lparr>image_bytes = [], acq_errors = errs, consecutive_400s = 0\<rparr>, w)")
  have p1: "paced w w1" using fp by (rule paced_fetch_pass)
  obtain a2 w2 where fr: "fetch_pass_regular L base chapter_hash data_regular
      (a\<lparr>image_bytes := []\<rparr>, w1) = (a2, w2)"
    by (cases "fetch_pass_regular L base chapter_hash data_regular (a\<lparr>image_bytes := []\<rparr>, w1)")
  have p2: "paced w w2" using p1 paced_fetch_pass_regular [OF fr] by (rule paced_trans)
  from assms fp fr have "w' = w1 \<or> w' = w2"
    by (auto simp: acquire_images_def Let_def split: if_splits)
  with p1 p2 show ?thesis by auto
qed

lemma io_step_trace: "io_step w = (b, w1) \<Longrightarrow> trace w1 = trace w"
  by (auto simp: io_step_def)

lemma write_plain_trace [simp]: "trace (write_plain path c w) = trace w"
  by (auto simp: write_plain_def io_step_def split: prod.splits option.splits)

lemma write_entries_trace: "write_entries tmp es w = (r, w') \<Longrightarrow> trace w' = trace w"
proof (induction es arbitrary: w)
  case Nil
  then show ?case by simp
next
  case (Cons e es)
  obtain b w1 where io: "io_step w = (b, w1)" by (cases "io_step w")
  from Cons.prems io Cons.IH [of "append_entry tmp e w1"] io_step_trace [OF io]
  show ?case by (cases b) (auto simp: append_entry_def)
qed

lemma build_archive_trace: "build_archive tmp es w = (r, w') \<Longrightarrow> trace w' = trace w"
  by (auto simp: build_archive_def close_archive_def
      split: prod.splits option.splits sum.splits
      dest!: io_step_trace write_entries_trace)

lemma archive_chapter_trace:
  "archive_chapter tmp final es w = (r, w') \<Longrightarrow> trace w' = trace w"
  by (auto simp: archive_chapter_def move_def split: prod.splits option.splits sum.splits
      dest!: io_step_trace build_archive_trace)

lemma paced_fetch_cover: "paced w (fetch_cover url path w)"
proof -
  obtain rep w1 where g: "rps_get CoverFetch url None w = (rep, w1)"
    by (cases "rps_get CoverFetch url None w")
  have p1: "paced w w1" using g by (auto intro: paced_rps_get)
  have "trace (fetch_cover url path w) = trace w1"
    using g by (auto simp: fetch_cover_def split: reply.splits sum.splits)
  then have "paced w1 (fetch_cover url path w)" by (rule paced_same)
  with p1 show ?thesis by (rule paced_trans)
qed

lemma paced_download_series_metadata: "paced w (download_series_metadata L d m mid w)"
proof -
  have "trace (download_series_metadata L d m mid w) = trace w
    \<or> (\<exists>url path. trace (download_series_metadata L d m mid w) = trace (fetch_cover url path w))"
    by (auto simp: download_series_metadata_def Let_def)
  then show ?thesis
    by (auto intro: paced_same paced_trans [OF paced_fetch_cover])
qed

lemma paced_prepare_chapter:
  assumes "prepare_chapter cfg L mt md mid p w = (r, w2)"
  shows "paced w w2"
proof -
  obtain b w1 where io: "io_step w = (b, w1)" by (cases "io_step w")
  have t1: "paced w w1" using io_step_trace [OF io] by (rule paced_same)
  from assms io have "w2 = w1
      \<or> (\<exists>m. w2 = sleep (Fin 2) (download_series_metadata L (series_dir_of cfg mt mid) m mid w1))"
    by (cases b) (auto simp: prepare_chapter_def split: option.splits if_splits)
  with t1 show ?thesis
    by (auto intro: paced_trans paced_trans [OF paced_download_series_metadata paced_sleep])
qed

lemma paced_package_chapter:
  assumes "package_chapter cfg L mt md mid ch cid images p w = (r, w')"
  shows "paced w w'"
proof -
  obtain r1 w2 where prep: "prepare_chapter cfg L mt md mid p w = (r1, w2)"
    by (cases "prepare_chapter cfg L mt md mid p w")
  have p2: "paced w w2" using prep by (rule paced_prepare_chapter)
  obtain r3 w3 where ac: "archive_chapter (tmp_path_of cfg cid)
      (final_path_of cfg L mt mid ch cid) (chapter_entries L md ch cid images) w2 = (r3, w3)"
    by (cases "archive_chapter (tmp_path_of cfg cid)
      (final_path_of cfg L mt mid ch cid) (chapter_entries L md ch cid images) w2")
  have p3: "paced w w3"
    using p2 paced_same [OF archive_chapter_trace [OF ac]] by (rule paced_trans)
  from assms prep ac have "w' = w2 \<or> w' = w3"
    by (cases r1; cases r3) (auto simp: package_chapter_def)
  with p2 p3 show ?thesis by auto
qed

lemma paced_process_chapter:
  assumes "process_chapter cfg L k mt md mid ch p w = Some (r, w')"
  shows "paced w w'"
proof (cases "\<not> truthy (chapter_id ch) \<or> truthy (externalUrl ch)")
  case True
  with assms show ?thesis by (auto simp: process_chapter_def split: if_splits)
next
  case False
  show ?thesis
  proof (cases "get_at_home cfg L k (or_else (chapter_id ch) []) w")
    case None
    with assms False show ?thesis by (simp add: process_chapter_def)
  next
    case (Some x)
    obtain ra w1 where x: "x = (ra, w1)" by (cases x)
    have p1: "paced w w1" using Some x paced_get_at_home by blast
    show ?thesis
    proof (cases ra)
      case (Inl e)
      with assms False Some x p1 show ?thesis by (auto simp: process_chapter_def)
    next
      case (Inr b)
      obtain base chapter_hash data_regular data_saver
        where ah: "at_home_fields b = (base, chapter_hash, data_regular, data_saver)"
        by (cases "at_home_fields b") auto
      obtain data data_kind
        where ct: "choose_tier (use_datasaver cfg) data_regular data_saver = (data, data_kind)"
        by (cases "choose_tier (use_datasaver cfg) data_regular data_saver")
      show ?thesis
      proof (cases "truthy base \<and> truthy chapter_hash \<and> data \<noteq> []")
        case no: False
        with assms False Some x Inr ah ct p1 show ?thesis
          by (auto simp: process_chapter_def)
      next
        case yes: True
        obtain images errs w2
          where ai: "acquire_images L (or_else base []) (or_else chapter_hash [])
                       data_regular data data_kind (n_errors p) w1 = ((images, errs), w2)"
          by (cases "acquire_images L (or_else base []) (or_else chapter_hash [])
                       data_regular data data_kind (n_errors p) w1") auto
        have p2: "paced w w2" using p1 paced_acquire_images [OF ai] by (rule paced_trans)
        show ?thesis
        proof (cases "images = []")
          case True
          with assms False Some x Inr ah ct yes ai p2 show ?thesis
            by (auto simp: process_chapter_def)
        next
          case ne: False
          with assms False Some x Inr ah ct yes ai
          have "package_chapter cfg L mt md mid ch (or_else (chapter_id ch) []) images
                  (p\<lparr>n_errors := errs\<rparr>) w2 = (r, w')"
            by (auto simp: process_chapter_def)
          from p2 paced_package_chapter [OF this] show ?thesis by (rule paced_trans)
        qed
      qed
    qed
  qed
qed

lemma paced_chapters_loop:
  "chapters_loop cfg L k mt md mid chs p w = Some (r, w') \<Longrightarrow> paced w w'"
proof (induction chs arbitrary: p w)
  case Nil
  then show ?case by simp
next
  case (Cons ch chs)
  show ?case
  proof (cases "process_chapter cfg L k mt md mid ch p w")
    case None
    with Cons.prems show ?thesis by simp
  next
    case (Some x)
    obtain r1 w1 where x: "x = (r1, w1)" by (cases x)
    have p1: "paced w w1" using Some x paced_process_chapter by blast
    show ?thesis
    proof (cases r1)
      case (Inl e)
      with Cons.prems Some x p1 show ?thesis by auto
    next
      case (Inr p1')
      with Cons.prems Some x
      have "chapters_loop cfg L k mt md mid chs p1' w1 = Some (r, w')" by simp
      from Cons.IH [OF this] p1 show ?thesis by (rule paced_trans [rotated])
    qed
  qed
qed

text \<open>
  C4 (as amended). In every run of process\_job that ends, with a summary or with an
  exception: of the GETs the job sends, those that go through \<open>_limited_get\<close> (title
  detail, chapter listing, image-source resolution, with all their retries) are each
  sent under a permit of the per-minute window and a permit of the per-second window;
  each per-image fetch and the cover fetch is sent under a permit of the per-second
  window alone. The POSTs to the token endpoint take no permit.
\<close>

theorem requests_take_their_windows:
  assumes "process_job cfg L k n job w = Some (r, w')"
  shows "\<exists>d. trace w' = trace w @ d \<and> permits windows_of {} d = Some {}"
proof -
  from assms obtain r1 w1 chs w2 r3 where
    gm: "get_manga cfg L k (manga_id job) w = Some (r1, w1)"
    and lc: "list_chapters cfg L k n (manga_id job)
               (or_else (language job) (default_language cfg)) w1 = Some (chs, w2)"
    and loop: "chapters_loop cfg L k (manga_title_of L (manga_data_of r1)) (manga_data_of r1)
             (manga_id job) (select_chapters L job chs) progress0 w2 = Some (r3, w')"
    by (auto simp: process_job_def split: option.splits prod.splits sum.splits)
  have "paced w w1" using gm by (rule paced_get_manga)
  moreover have "paced w1 w2" using lc by (rule paced_list_chapters)
  moreover have "paced w2 w'" using loop by (rule paced_chapters_loop)
  ultimately have "paced w w'" by (blast intro: paced_trans)
  then show ?thesis by (simp add: paced_def)
qed

text \<open>
  The claim as it was stated fails: in the run against the sample title the three API
  requests are sent under both windows, and the image request that follows is sent with
  a permit of the per-second window only.
\<close>

theorem image_fetch_skips_minute_window:
  "map_option (\<lambda>(r, w'). trace w')
       (process_job demo_cfg demo_lib 3 3 (demo_job None None) (world_of full_replies))
     = Some full_trace
   \<and> permits both_windows {} full_trace = None
   \<and> permits both_windows {} (take 9 full_trace) = Some {}
   \<and> permits both_windows {} (take 11 full_trace) = None"
  by code_simp

theorem requests_take_their_windows_witness:
  "map_option (\<lambda>(r, w'). trace w')
       (process_job demo_cfg demo_lib 3 3 (demo_job None None) (world_of full_replies))
     = Some full_trace
   \<and> (\<exists>d. full_trace = trace (world_of full_replies) @ d \<and> permits windows_of {} d = Some {})"
proof -
  let ?run = "process_job demo_cfg demo_lib 3 3 (demo_job None None) (world_of full_replies)"
  have ev: "map_option (\<lambda>(r, w'). trace w') ?run = Some full_trace"
    by code_simp
  then obtain r w' where run: "?run = Some (r, w')" and t: "trace w' = full_trace"
    by (cases ?run) auto
  from requests_take_their_windows [OF run] t
  have "\<exists>d. full_trace = trace (world_of full_replies) @ d \<and> permits windows_of {} d = Some {}"
    by simp
  with ev show ?thesis by simp
qed


end
